theory Spec2Isabelle
  imports Main "HOL-Library.Char_ord" "HOL-Library.List_Lexorder"
begin

section \<open>StockFlow inventory store\<close>

text \<open>
  The repository holds two overlapping implementations of the same inventory page: the
  full manual CRUD page (functions \<open>loadInventory\<close>, \<open>saveInventory\<close>, \<open>addItem\<close>,
  \<open>updateItem\<close>, \<open>updateQuantity\<close>, \<open>deleteItem\<close>, \<open>getCategories\<close>, \<open>renderTable\<close>)
  and the scan-only page \<open>www/script.js\<close> (\<open>loadInventory\<close>, \<open>saveInventory\<close>,
  \<open>changeQty\<close>, \<open>onBarcodeDetected\<close>, \<open>getCategories\<close>, \<open>renderTable\<close>). Functions of the
  scan-only page carry the suffix \<open>_scan\<close> where the name is shared.

  JavaScript strings are modelled as \<open>string\<close>, that is, sequences of code units in the
  range 0..255; numbers are modelled as \<open>int\<close> (exact on the integers a double holds
  exactly). The clock (\<open>Date.now()\<close>, \<open>new Date().toISOString()\<close>) and \<open>Math.random()\<close>
  are inputs of the operations that read them. The DOM (table, statistics tiles, toasts,
  modals) is not modelled: it never feeds back into the inventory.
\<close>

subsection \<open>JSON values, \<open>JSON.stringify\<close> and \<open>JSON.parse\<close>\<close>

text \<open>
  \<open>JNum\<close> is an integer number; \<open>JDec m k\<close> is the non-integer \<open>m / 10 ^ k\<close> that a
  decimal literal denotes (kept exact here, where the engine rounds to a double). An
  object is the list of its properties in insertion order, which is the order in which
  the engine enumerates properties whose names are not array indices; the inventory
  records have no such names.
\<close>

datatype jsval =
    JNull
  | JBool bool
  | JNum int
  | JDec int nat
  | JStr string
  | JArray "jsval list"
  | JObject "(string \<times> jsval) list"

text \<open>
  \<open>JSON.stringify\<close> without indentation. An integer is written in decimal
  (\<open>string_of_nat\<close>); a string is quoted by \<open>QuoteJSONString\<close>: the two-character escapes
  for backspace, tab, line feed, form feed, carriage return, the quote and the backslash,
  \<open>\u00XX\<close> in lower-case hex for the other code units below 32, every other code unit
  as it is. Elements and properties are separated by commas, a property is written
  \<open>"name":value\<close>.
\<close>

definition digit_char :: "nat \<Rightarrow> char" where
  "digit_char d = char_of (48 + d)"

function string_of_nat :: "nat \<Rightarrow> string" where
  "string_of_nat n =
     (if n < 10 then [digit_char n] else string_of_nat (n div 10) @ [digit_char (n mod 10)])"
  by pat_completeness auto
termination
  by (relation "measure id") auto

declare string_of_nat.simps [simp del]

definition hex_char :: "nat \<Rightarrow> char" where
  "hex_char d = (if d < 10 then char_of (48 + d) else char_of (87 + d))"

definition quote_char :: "char \<Rightarrow> string" where
  "quote_char c =
     (if c = CHR 0x08 then [CHR 0x5C, CHR ''b'']
      else if c = CHR 0x09 then [CHR 0x5C, CHR ''t'']
      else if c = CHR 0x0A then [CHR 0x5C, CHR ''n'']
      else if c = CHR 0x0C then [CHR 0x5C, CHR ''f'']
      else if c = CHR 0x0D then [CHR 0x5C, CHR ''r'']
      else if c = CHR 0x22 then [CHR 0x5C, CHR 0x22]
      else if c = CHR 0x5C then [CHR 0x5C, CHR 0x5C]
      else if of_char c < (32::nat)
        then [CHR 0x5C, CHR ''u'', CHR ''0'', CHR ''0'',
              hex_char (of_char c div 16), hex_char (of_char c mod 16)]
      else [c])"

definition QuoteJSONString :: "string \<Rightarrow> string" where
  "QuoteJSONString s = CHR 0x22 # concat (map quote_char s) @ [CHR 0x22]"

fun join :: "string \<Rightarrow> string list \<Rightarrow> string" where
  "join sep [] = []"
| "join sep [x] = x"
| "join sep (x # y # ys) = x @ sep @ join sep (y # ys)"

definition decimal_string :: "int \<Rightarrow> nat \<Rightarrow> string" where
  "decimal_string m k =
     (let a = nat \<bar>m\<bar>; fs = string_of_nat (a mod 10 ^ k)
      in (if m < 0 then ''-'' else []) @ string_of_nat (a div 10 ^ k) @ ''.'' @
         replicate (k - length fs) CHR ''0'' @ fs)"

fun JSON_stringify :: "jsval \<Rightarrow> string" where
  "JSON_stringify JNull = ''null''"
| "JSON_stringify (JBool b) = (if b then ''true'' else ''false'')"
| "JSON_stringify (JNum n) =
     (if n < 0 then CHR ''-'' # string_of_nat (nat (- n)) else string_of_nat (nat n))"
| "JSON_stringify (JDec m k) = decimal_string m k"
| "JSON_stringify (JStr s) = QuoteJSONString s"
| "JSON_stringify (JArray vs) = ''['' @ join '','' (map JSON_stringify vs) @ '']''"
| "JSON_stringify (JObject kvs) =
     ''{'' @ join '','' (map (\<lambda>(k, v). QuoteJSONString k @ '':'' @ JSON_stringify v) kvs) @ ''}''"

text \<open>The two exceptions the pages can meet.\<close>

datatype error = SyntaxError | QuotaExceededError

text \<open>
  \<open>JSON.parse\<close>: white space is space, tab, line feed and carriage return. A number is
  an optional minus sign, an integer part without leading zeros, an optional fraction and
  an optional exponent; its value \<open>m \<times> 10 ^ x\<close> is an integer (\<open>JNum\<close>) or a reduced decimal
  (\<open>JDec\<close>).
\<close>

definition is_ws :: "char \<Rightarrow> bool" where
  "is_ws c = (c = CHR 0x20 \<or> c = CHR 0x09 \<or> c = CHR 0x0A \<or> c = CHR 0x0D)"

definition skip_ws :: "string \<Rightarrow> string" where
  "skip_ws s = dropWhile is_ws s"

definition is_digit :: "char \<Rightarrow> bool" where
  "is_digit c = (CHR ''0'' \<le> c \<and> c \<le> CHR ''9'')"

definition digit_val :: "char \<Rightarrow> nat" where
  "digit_val c = of_char c - 48"

definition nat_of_digits :: "string \<Rightarrow> nat" where
  "nat_of_digits ds = foldl (\<lambda>a c. a * 10 + digit_val c) 0 ds"

text \<open>
  A string ends at the next quote; a code unit below 32 is not allowed in it; a backslash
  starts one of the escapes \<open>\" \\ \/ \b \f \n \r \t\<close> or \<open>\uXXXX\<close> with four hex digits
  of either case. An escape \<open>\uXXXX\<close> above \<open>00FF\<close> denotes a code unit outside the
  strings of this theory and is rejected (the engine accepts it); \<open>JSON.stringify\<close> never
  writes one for the strings of this theory.
\<close>

definition hex_val :: "char \<Rightarrow> nat option" where
  "hex_val c =
     (if CHR ''0'' \<le> c \<and> c \<le> CHR ''9'' then Some (of_char c - 48)
      else if CHR ''a'' \<le> c \<and> c \<le> CHR ''f'' then Some (of_char c - 87)
      else if CHR ''A'' \<le> c \<and> c \<le> CHR ''F'' then Some (of_char c - 55)
      else None)"

definition parse_hex4 :: "string \<Rightarrow> nat option" where
  "parse_hex4 s =
     (if length s < 4 then None
      else
        (case hex_val (s ! 0) of None \<Rightarrow> None | Some a \<Rightarrow>
        (case hex_val (s ! 1) of None \<Rightarrow> None | Some b \<Rightarrow>
        (case hex_val (s ! 2) of None \<Rightarrow> None | Some c \<Rightarrow>
        (case hex_val (s ! 3) of None \<Rightarrow> None | Some d \<Rightarrow>
           Some (((a * 16 + b) * 16 + c) * 16 + d))))))"

definition unescape :: "char \<Rightarrow> char option" where
  "unescape e =
     (if e = CHR 0x22 then Some (CHR 0x22)
      else if e = CHR 0x5C then Some (CHR 0x5C)
      else if e = CHR ''/'' then Some (CHR ''/'')
      else if e = CHR ''b'' then Some (CHR 0x08)
      else if e = CHR ''f'' then Some (CHR 0x0C)
      else if e = CHR ''n'' then Some (CHR 0x0A)
      else if e = CHR ''r'' then Some (CHR 0x0D)
      else if e = CHR ''t'' then Some (CHR 0x09)
      else None)"

definition cons_result :: "'a \<Rightarrow> ('a list \<times> 'b) option \<Rightarrow> ('a list \<times> 'b) option" where
  "cons_result x r = (case r of None \<Rightarrow> None | Some (xs, rest) \<Rightarrow> Some (x # xs, rest))"

fun parse_chars :: "string \<Rightarrow> (string \<times> string) option" where
  "parse_chars [] = None"
| "parse_chars (c # r) =
     (if c = CHR 0x22 then Some ([], r)
      else if c = CHR 0x5C then
        (case r of
           [] \<Rightarrow> None
         | e # r' \<Rightarrow>
             if e = CHR ''u'' then
               (case parse_hex4 r' of
                  None \<Rightarrow> None
                | Some u \<Rightarrow> if u < 256 then cons_result (char_of u) (parse_chars (drop 4 r')) else None)
             else
               (case unescape e of
                  None \<Rightarrow> None
                | Some ch \<Rightarrow> cons_result ch (parse_chars r')))
      else if of_char c < (32::nat) then None
      else cons_result c (parse_chars r))"

fun reduce_decimal :: "int \<Rightarrow> nat \<Rightarrow> jsval" where
  "reduce_decimal m 0 = JNum m"
| "reduce_decimal m (Suc k) =
     (if m mod 10 = 0 then reduce_decimal (m div 10) k else JDec m (Suc k))"

definition make_number :: "bool \<Rightarrow> nat \<Rightarrow> int \<Rightarrow> jsval" where
  "make_number neg m x =
     (let sm = (if neg then - int m else int m)
      in if 0 \<le> x then JNum (sm * 10 ^ nat x) else reduce_decimal sm (nat (- x)))"

definition parse_fraction :: "string \<Rightarrow> (string \<times> string) option" where
  "parse_fraction s =
     (case s of
        [] \<Rightarrow> Some ([], s)
      | c # r \<Rightarrow>
          if c = CHR ''.'' then
            (if takeWhile is_digit r = [] then None
             else Some (takeWhile is_digit r, dropWhile is_digit r))
          else Some ([], s))"

definition parse_sign :: "string \<Rightarrow> int \<times> string" where
  "parse_sign r =
     (case r of
        [] \<Rightarrow> (1, r)
      | d # r' \<Rightarrow> if d = CHR ''+'' then (1, r') else if d = CHR ''-'' then (- 1, r') else (1, r))"

definition parse_exponent :: "string \<Rightarrow> (int \<times> string) option" where
  "parse_exponent s =
     (case s of
        [] \<Rightarrow> Some (0, s)
      | c # r \<Rightarrow>
          if c = CHR ''e'' \<or> c = CHR ''E'' then
            (case parse_sign r of (sg, r1) \<Rightarrow>
               if takeWhile is_digit r1 = [] then None
               else Some (sg * int (nat_of_digits (takeWhile is_digit r1)), dropWhile is_digit r1))
          else Some (0, s))"

definition parse_int_part :: "string \<Rightarrow> string" where
  "parse_int_part s =
     (case s of [] \<Rightarrow> [] | c # r \<Rightarrow> if c = CHR ''0'' then ''0'' else takeWhile is_digit s)"

definition parse_number :: "string \<Rightarrow> (jsval \<times> string) option" where
  "parse_number s =
     (let neg = (s \<noteq> [] \<and> hd s = CHR ''-'');
          s1 = (if neg then tl s else s);
          ip = parse_int_part s1
      in if ip = [] then None
         else
           (case parse_fraction (drop (length ip) s1) of
              None \<Rightarrow> None
            | Some (fs, s3) \<Rightarrow>
                (case parse_exponent s3 of
                   None \<Rightarrow> None
                 | Some (e, s4) \<Rightarrow>
                     Some (make_number neg (nat_of_digits (ip @ fs)) (e - int (length fs)), s4))))"

text \<open>The literals \<open>true\<close>, \<open>false\<close> and \<open>null\<close>.\<close>

definition parse_literal :: "string \<Rightarrow> jsval \<Rightarrow> string \<Rightarrow> (jsval \<times> string) option" where
  "parse_literal w v s = (if take (length w) s = w then Some (v, drop (length w) s) else None)"

text \<open>
  A property name that occurs again in an object text replaces the value and keeps the
  place of the first occurrence.
\<close>

definition obj_put :: "(string \<times> jsval) list \<Rightarrow> string \<Rightarrow> jsval \<Rightarrow> (string \<times> jsval) list" where
  "obj_put acc k v =
     (if k \<in> fst ` set acc then map (\<lambda>(k', v'). if k' = k then (k', v) else (k', v')) acc
      else acc @ [(k, v)])"

text \<open>
  Values. The first argument of \<open>parse_value\<close>, \<open>parse_elements\<close> and \<open>parse_members\<close>
  bounds the depth of the recursion; \<open>JSON_parse\<close> supplies one more than the length of
  the text, which is enough for every text (lemma \<open>parse_value_fuel_enough\<close> below).
  \<open>JSON_parse\<close> accepts one value with white space around it and throws \<open>SyntaxError\<close>
  otherwise.
\<close>

definition parse_scalar :: "string \<Rightarrow> (jsval \<times> string) option" where
  "parse_scalar s =
     (case s of
        [] \<Rightarrow> None
      | c # r \<Rightarrow>
          if c = CHR 0x22 then
            (case parse_chars r of None \<Rightarrow> None | Some (str, r') \<Rightarrow> Some (JStr str, r'))
          else if c = CHR ''t'' then parse_literal ''true'' (JBool True) s
          else if c = CHR ''f'' then parse_literal ''false'' (JBool False) s
          else if c = CHR ''n'' then parse_literal ''null'' JNull s
          else parse_number s)"

definition parse_key :: "string \<Rightarrow> (string \<times> string) option" where
  "parse_key s =
     (case skip_ws s of
        [] \<Rightarrow> None
      | q # r \<Rightarrow>
          if q \<noteq> CHR 0x22 then None
          else
            (case parse_chars r of
               None \<Rightarrow> None
             | Some (k, r1) \<Rightarrow>
                 (case skip_ws r1 of
                    [] \<Rightarrow> None
                  | c # r2 \<Rightarrow> if c \<noteq> CHR '':'' then None else Some (k, r2))))"

fun parse_value :: "nat \<Rightarrow> string \<Rightarrow> (jsval \<times> string) option"
  and parse_elements :: "nat \<Rightarrow> string \<Rightarrow> (jsval list \<times> string) option"
  and parse_members ::
    "nat \<Rightarrow> (string \<times> jsval) list \<Rightarrow> string \<Rightarrow> ((string \<times> jsval) list \<times> string) option"
where
  "parse_value 0 s = None"
| "parse_value (Suc n) s =
     (case skip_ws s of
        [] \<Rightarrow> None
      | c # r \<Rightarrow>
          if c = CHR ''['' then
            (case skip_ws r of
               [] \<Rightarrow> None
             | d # r' \<Rightarrow>
                 if d = CHR '']'' then Some (JArray [], r')
                 else (case parse_elements n r of
                         None \<Rightarrow> None
                       | Some (vs, r'') \<Rightarrow> Some (JArray vs, r'')))
          else if c = CHR ''{'' then
            (case skip_ws r of
               [] \<Rightarrow> None
             | d # r' \<Rightarrow>
                 if d = CHR ''}'' then Some (JObject [], r')
                 else (case parse_members n [] r of
                         None \<Rightarrow> None
                       | Some (kvs, r'') \<Rightarrow> Some (JObject kvs, r'')))
          else parse_scalar (c # r))"
| "parse_elements 0 s = None"
| "parse_elements (Suc n) s =
     (case parse_value n s of
        None \<Rightarrow> None
      | Some (v, r) \<Rightarrow>
          (case skip_ws r of
             [] \<Rightarrow> None
           | c # r' \<Rightarrow>
               if c = CHR '','' then cons_result v (parse_elements n r')
               else if c = CHR '']'' then Some ([v], r')
               else None))"
| "parse_members 0 acc s = None"
| "parse_members (Suc n) acc s =
     (case parse_key s of
        None \<Rightarrow> None
      | Some (k, r2) \<Rightarrow>
          (case parse_value n r2 of
             None \<Rightarrow> None
           | Some (v, r3) \<Rightarrow>
               (case skip_ws r3 of
                  [] \<Rightarrow> None
                | d # r4 \<Rightarrow>
                    if d = CHR '','' then parse_members n (obj_put acc k v) r4
                    else if d = CHR ''}'' then Some (obj_put acc k v, r4)
                    else None)))"

definition JSON_parse :: "string \<Rightarrow> error + jsval" where
  "JSON_parse s =
     (case parse_value (Suc (length s)) s of
        None \<Rightarrow> Inl SyntaxError
      | Some (v, r) \<Rightarrow> if skip_ws r = [] then Inr v else Inl SyntaxError)"

text \<open>
  The JSON values for which writing and reading back is the identity: integers a double
  holds exactly, no non-integer numbers, objects whose property names are pairwise
  distinct.
\<close>

fun wf_json :: "jsval \<Rightarrow> bool" where
  "wf_json JNull = True"
| "wf_json (JBool b) = True"
| "wf_json (JNum n) = (\<bar>n\<bar> \<le> 9007199254740991)"
| "wf_json (JDec m k) = False"
| "wf_json (JStr s) = True"
| "wf_json (JArray vs) = list_all wf_json vs"
| "wf_json (JObject kvs) = (distinct (map fst kvs) \<and> list_all (\<lambda>kv. wf_json (snd kv)) kvs)"



text \<open>The text of one property of an object.\<close>

definition member_text :: "string \<times> jsval \<Rightarrow> string" where
  "member_text kv = QuoteJSONString (fst kv) @ '':'' @ JSON_stringify (snd kv)"

subsection \<open>Items, the page state and the storage slot\<close>

text \<open>
  An inventory record. The manual page creates items with all nine properties; the
  scan-only page creates them without \<open>notes\<close>, \<open>createdAt\<close> and \<open>updatedAt\<close>, so
  these three are optional. The property \<open>id\<close> is the field \<open>ident\<close>.
\<close>

record item =
  ident :: string
  name :: string
  sku :: string
  category :: string
  quantity :: int
  unit :: string
  "notes" :: "string option"
  createdAt :: "string option"
  updatedAt :: "string option"

text \<open>The form data passed to \<open>addItem\<close> (\<open>itemData\<close>: no id, no timestamps).\<close>

record itemData =
  d_name :: string
  d_sku :: string
  d_category :: string
  d_quantity :: int
  d_unit :: string
  d_notes :: "string option"

text \<open>
  The \<open>updates\<close> object of \<open>updateItem\<close>: each property is present (\<open>Some\<close>) or absent.
  The object spread copies whatever properties the object has, \<open>id\<close> included.
\<close>

record updates =
  u_ident :: "string option"
  u_name :: "string option"
  u_sku :: "string option"
  u_category :: "string option"
  u_quantity :: "int option"
  u_unit :: "string option"
  u_notes :: "string option"
  u_createdAt :: "string option"
  u_updatedAt :: "string option"

text \<open>
  The module state: the \<open>inventory\<close> array and the \<open>localStorage\<close> slot under
  \<open>STORAGE_KEY\<close> (\<open>None\<close> when the key is absent). \<open>quota\<close> is the number of code units
  the slot accepts: \<open>setItem\<close> of a longer text throws \<open>QuotaExceededError\<close>.
\<close>

record state =
  inventory :: "item list"
  storage :: "string option"
  quota :: nat

record scan_state = state +
  scanCooldown :: bool

definition LOW_STOCK_THRESHOLD :: int where
  "LOW_STOCK_THRESHOLD = 5"

definition js_of_item :: "item \<Rightarrow> jsval" where
  "js_of_item i =
     JObject
       ([(''name'', JStr (name i)), (''sku'', JStr (sku i)), (''category'', JStr (category i)),
         (''quantity'', JNum (quantity i)), (''unit'', JStr (unit i))]
        @ (case notes i of None \<Rightarrow> [] | Some n \<Rightarrow> [(''notes'', JStr n)])
        @ [(''id'', JStr (ident i))]
        @ (case createdAt i of None \<Rightarrow> [] | Some t \<Rightarrow> [(''createdAt'', JStr t)])
        @ (case updatedAt i of None \<Rightarrow> [] | Some t \<Rightarrow> [(''updatedAt'', JStr t)]))"

definition js_of_inventory :: "item list \<Rightarrow> jsval" where
  "js_of_inventory xs = JArray (map js_of_item xs)"


definition getItem :: "'a state_scheme \<Rightarrow> string option" where
  "getItem st = storage st"

definition setItem :: "string \<Rightarrow> 'a state_scheme \<Rightarrow> error + 'a state_scheme" where
  "setItem text st =
     (if length text \<le> quota st then Inr (st\<lparr>storage := Some text\<rparr>)
      else Inl QuotaExceededError)"

subsection \<open>Manual page: storage functions\<close>

text \<open>
  \<open>loadInventory\<close> returns the value it assigns to \<open>inventory\<close>: the decoded JSON value
  as it is (the code does not validate it), or the empty array.
\<close>

definition loadInventory :: "'a state_scheme \<Rightarrow> jsval" where
  "loadInventory st =
     (case getItem st of
        None \<Rightarrow> JArray []
      | Some stored \<Rightarrow>
          if stored = [] then JArray []
          else (case JSON_parse stored of Inl e \<Rightarrow> JArray [] | Inr v \<Rightarrow> v))"

definition saveInventory :: "state \<Rightarrow> state" where
  "saveInventory st =
     (case setItem (JSON_stringify (js_of_inventory (inventory st))) st of
        Inl e \<Rightarrow> st
      | Inr st' \<Rightarrow> st')"

subsection \<open>Manual page: utility functions\<close>

text \<open>
  \<open>generateId now rnd\<close>: \<open>now\<close> is the value of \<open>Date.now()\<close> and \<open>rnd\<close> the text of
  \<open>Math.random().toString(36)\<close>; \<open>substr(2, 9)\<close> keeps at most nine code units from
  index 2 on.
\<close>

definition generateId :: "nat \<Rightarrow> string \<Rightarrow> string" where
  "generateId now rnd = ''item_'' @ string_of_nat now @ ''_'' @ take 9 (drop 2 rnd)"

text \<open>\<open>new Set(xs)\<close> adds the elements in turn; an element already present is skipped.\<close>

fun Set_add :: "'a list \<Rightarrow> 'a list \<Rightarrow> 'a list" where
  "Set_add acc [] = acc"
| "Set_add acc (x # xs) = Set_add (if x \<in> set acc then acc else acc @ [x]) xs"

definition getCategories :: "'a state_scheme \<Rightarrow> string list" where
  "getCategories st = sort (Set_add [] (map category (inventory st)))"

subsection \<open>Manual page: the filter of \<open>renderTable\<close>\<close>

definition lower_char :: "char \<Rightarrow> char" where
  "lower_char c =
     (if (CHR ''A'' \<le> c \<and> c \<le> CHR ''Z'') \<or> (CHR 0xC0 \<le> c \<and> c \<le> CHR 0xDE \<and> c \<noteq> CHR 0xD7)
      then char_of (of_char c + (32::nat)) else c)"

definition toLowerCase :: "string \<Rightarrow> string" where
  "toLowerCase s = map lower_char s"

definition startsWith :: "string \<Rightarrow> string \<Rightarrow> bool" where
  "startsWith s q = (take (length q) s = q)"

fun "includes" :: "string \<Rightarrow> string \<Rightarrow> bool" where
  "includes [] q = (q = [])"
| "includes (c # s) q = (startsWith (c # s) q \<or> includes s q)"

text \<open>
  The list \<open>filteredItems\<close> that \<open>renderTable\<close> computes; \<open>searchInput\<close> and
  \<open>categoryFilter\<close> are the values of the two form controls.
\<close>

definition filteredItems :: "string \<Rightarrow> string \<Rightarrow> 'a state_scheme \<Rightarrow> item list" where
  "filteredItems searchInput categoryFilter st =
     (let searchQuery = toLowerCase searchInput
      in filter (\<lambda>item.
           (includes (toLowerCase (name item)) searchQuery \<or>
            includes (toLowerCase (sku item)) searchQuery) \<and>
           (categoryFilter = ''all'' \<or> category item = categoryFilter))
         (inventory st))"

subsection \<open>Manual page: CRUD operations\<close>

text \<open>\<open>findIndex\<close> returns the first index whose element satisfies the test (\<open>None\<close> for -1).\<close>

fun findIndex :: "('a \<Rightarrow> bool) \<Rightarrow> 'a list \<Rightarrow> nat option" where
  "findIndex P [] = None"
| "findIndex P (x # xs) = (if P x then Some 0 else map_option Suc (findIndex P xs))"

text \<open>\<open>first_with P xs k\<close>: \<open>k\<close> is the first index of \<open>xs\<close> whose element satisfies \<open>P\<close>.\<close>

definition first_with :: "('a \<Rightarrow> bool) \<Rightarrow> 'a list \<Rightarrow> nat \<Rightarrow> bool" where
  "first_with P xs k = (k < length xs \<and> P (xs ! k) \<and> (\<forall>j<k. \<not> P (xs ! j)))"

text \<open>
  \<open>addItem\<close> reads the clock and the random source for the id, then the clock twice
  more for the two timestamps (\<open>t1\<close>, \<open>t2\<close>). It returns no value.
\<close>

definition addItem :: "itemData \<Rightarrow> nat \<Rightarrow> string \<Rightarrow> string \<Rightarrow> string \<Rightarrow> state \<Rightarrow> state" where
  "addItem itemData now rnd t1 t2 st =
     (let newItem =
        \<lparr>ident = generateId now rnd, name = d_name itemData, sku = d_sku itemData,
         category = d_category itemData, quantity = d_quantity itemData,
         unit = d_unit itemData, notes = d_notes itemData,
         createdAt = Some t1, updatedAt = Some t2\<rparr>
      in saveInventory (st\<lparr>inventory := newItem # inventory st\<rparr>))"

text \<open>The spread \<open>{...old, ...updates, updatedAt: t}\<close>.\<close>

definition pick :: "'a option \<Rightarrow> 'a \<Rightarrow> 'a" where
  "pick new old = (case new of None \<Rightarrow> old | Some v \<Rightarrow> v)"

definition merge :: "item \<Rightarrow> updates \<Rightarrow> string \<Rightarrow> item" where
  "merge old u t =
     \<lparr>ident = pick (u_ident u) (ident old), name = pick (u_name u) (name old),
      sku = pick (u_sku u) (sku old), category = pick (u_category u) (category old),
      quantity = pick (u_quantity u) (quantity old), unit = pick (u_unit u) (unit old),
      notes = (case u_notes u of None \<Rightarrow> notes old | Some n \<Rightarrow> Some n),
      createdAt = (case u_createdAt u of None \<Rightarrow> createdAt old | Some c \<Rightarrow> Some c),
      updatedAt = Some t\<rparr>"

definition updateItem :: "string \<Rightarrow> updates \<Rightarrow> string \<Rightarrow> state \<Rightarrow> state" where
  "updateItem i u t st =
     (case findIndex (\<lambda>item. ident item = i) (inventory st) of
        None \<Rightarrow> st
      | Some index \<Rightarrow>
          saveInventory (st\<lparr>inventory := (inventory st)[index := merge (inventory st ! index) u t]\<rparr>))"

definition no_updates :: updates where
  "no_updates =
     \<lparr>u_ident = None, u_name = None, u_sku = None, u_category = None, u_quantity = None,
      u_unit = None, u_notes = None, u_createdAt = None, u_updatedAt = None\<rparr>"

definition updateQuantity :: "string \<Rightarrow> int \<Rightarrow> string \<Rightarrow> state \<Rightarrow> state" where
  "updateQuantity i delta t st =
     (case find (\<lambda>item. ident item = i) (inventory st) of
        None \<Rightarrow> st
      | Some item \<Rightarrow>
          (let newQuantity = max 0 (quantity item + delta)
           in updateItem i (no_updates\<lparr>u_quantity := Some newQuantity\<rparr>) t st))"

definition deleteItem :: "string \<Rightarrow> state \<Rightarrow> state" where
  "deleteItem i st =
     (case find (\<lambda>item. ident item = i) (inventory st) of
        None \<Rightarrow> st
      | Some item \<Rightarrow> saveInventory (st\<lparr>inventory := filter (\<lambda>item. ident item \<noteq> i) (inventory st)\<rparr>))"

text \<open>The store's operations as data, and the states they reach.\<close>

datatype action =
    Add itemData nat string string string
  | Update string updates string
  | Adjust string int string
  | Remove string

fun perform :: "action \<Rightarrow> state \<Rightarrow> state" where
  "perform (Add d now rnd t1 t2) st = addItem d now rnd t1 t2 st"
| "perform (Update i u t) st = updateItem i u t st"
| "perform (Adjust i delta t) st = updateQuantity i delta t st"
| "perform (Remove i) st = deleteItem i st"

fun run :: "action list \<Rightarrow> state \<Rightarrow> state" where
  "run [] st = st"
| "run (a # as) st = run as (perform a st)"

definition empty_store :: "string option \<Rightarrow> nat \<Rightarrow> state" where
  "empty_store sto q = \<lparr>inventory = [], storage = sto, quota = q\<rparr>"

text \<open>The quantity an action writes as it is given (no clamp on these paths).\<close>

fun nonneg_action :: "action \<Rightarrow> bool" where
  "nonneg_action (Add d now rnd t1 t2) = (0 \<le> d_quantity d)"
| "nonneg_action (Update i u t) = (case u_quantity u of None \<Rightarrow> True | Some q \<Rightarrow> 0 \<le> q)"
| "nonneg_action (Adjust i delta t) = True"
| "nonneg_action (Remove i) = True"



subsection \<open>Scan-only page (\<open>www/script.js\<close>)\<close>

text \<open>
  The scan-only page has no \<open>try\<close>/\<open>catch\<close>: an exception of \<open>JSON.parse\<close> or
  \<open>setItem\<close> leaves the function. A function that can be left this way returns the
  exception (if any) beside the state it has reached.
\<close>

definition truthy :: "jsval \<Rightarrow> bool" where
  "truthy v =
     (case v of
        JNull \<Rightarrow> False
      | JBool b \<Rightarrow> b
      | JNum n \<Rightarrow> n \<noteq> 0
      | JDec m k \<Rightarrow> True
      | JStr s \<Rightarrow> s \<noteq> []
      | JArray vs \<Rightarrow> True
      | JObject kvs \<Rightarrow> True)"

text \<open>\<open>JSON.parse(null)\<close> parses the text \<open>null\<close>.\<close>

definition loadInventory_scan :: "'a state_scheme \<Rightarrow> error + jsval" where
  "loadInventory_scan st =
     (case JSON_parse (case getItem st of None \<Rightarrow> ''null'' | Some stored \<Rightarrow> stored) of
        Inl e \<Rightarrow> Inl e
      | Inr v \<Rightarrow> Inr (if truthy v then v else JArray []))"

definition saveInventory_scan :: "scan_state \<Rightarrow> scan_state \<times> error option" where
  "saveInventory_scan st =
     (case setItem (JSON_stringify (js_of_inventory (inventory st))) st of
        Inl e \<Rightarrow> (st, Some e)
      | Inr st' \<Rightarrow> (st', None))"

definition generateId_scan :: "nat \<Rightarrow> string \<Rightarrow> string" where
  "generateId_scan now rnd = ''item_'' @ string_of_nat now @ ''_'' @ take 6 (drop 2 rnd)"

definition getCategories_scan :: "'a state_scheme \<Rightarrow> string list" where
  "getCategories_scan st = Set_add [] (map category (inventory st))"

definition filteredItems_scan :: "string \<Rightarrow> string \<Rightarrow> 'a state_scheme \<Rightarrow> item list" where
  "filteredItems_scan searchInput categoryFilter st =
     (let q = toLowerCase searchInput; cat = categoryFilter
      in filter (\<lambda>i.
           (includes (toLowerCase (name i)) q \<or> includes (sku i) q) \<and>
           (cat = ''all'' \<or> category i = cat))
         (inventory st))"

definition changeQty :: "string \<Rightarrow> int \<Rightarrow> scan_state \<Rightarrow> scan_state \<times> error option" where
  "changeQty i d st =
     (case findIndex (\<lambda>item. ident item = i) (inventory st) of
        None \<Rightarrow> (st, None)
      | Some k \<Rightarrow>
          saveInventory_scan
            (st\<lparr>inventory :=
                 (inventory st)[k := (inventory st ! k)\<lparr>quantity := max 0 (quantity (inventory st ! k) + d)\<rparr>]\<rparr>))"

definition confirmDelete :: "string \<Rightarrow> scan_state \<Rightarrow> scan_state \<times> error option" where
  "confirmDelete deletingItemId st =
     saveInventory_scan (st\<lparr>inventory := filter (\<lambda>i. ident i \<noteq> deletingItemId) (inventory st)\<rparr>)"

definition onBarcodeDetected ::
    "string \<Rightarrow> nat \<Rightarrow> string \<Rightarrow> scan_state \<Rightarrow> scan_state \<times> error option" where
  "onBarcodeDetected barcode now rnd st =
     (if scanCooldown st then (st, None)
      else
        (let st1 = st\<lparr>scanCooldown := True\<rparr>
         in case findIndex (\<lambda>i. sku i = barcode) (inventory st1) of
              Some k \<Rightarrow>
                saveInventory_scan
                  (st1\<lparr>inventory :=
                        (inventory st1)[k := (inventory st1 ! k)\<lparr>quantity := quantity (inventory st1 ! k) + 1\<rparr>]\<rparr>)
            | None \<Rightarrow>
                saveInventory_scan
                  (st1\<lparr>inventory :=
                        \<lparr>ident = generateId_scan now rnd, name = ''Auto Product'', sku = barcode,
                         category = ''General'', quantity = 1, unit = ''pcs'', notes = None,
                         createdAt = None, updatedAt = None\<rparr> # inventory st1\<rparr>)))"

text \<open>The timer that \<open>onBarcodeDetected\<close> sets ends the cooldown 1200 ms later.\<close>

definition cooldownElapsed :: "scan_state \<Rightarrow> scan_state" where
  "cooldownElapsed st = st\<lparr>scanCooldown := False\<rparr>"

text \<open>The scan-only page's operations as data, and the states they reach.\<close>

datatype scan_action =
    ChangeQty string int
  | ConfirmDelete string
  | Barcode string nat string
  | CooldownElapsed

fun perform_scan :: "scan_action \<Rightarrow> scan_state \<Rightarrow> scan_state" where
  "perform_scan (ChangeQty i d) st = fst (changeQty i d st)"
| "perform_scan (ConfirmDelete i) st = fst (confirmDelete i st)"
| "perform_scan (Barcode b now rnd) st = fst (onBarcodeDetected b now rnd st)"
| "perform_scan CooldownElapsed st = cooldownElapsed st"

fun run_scan :: "scan_action list \<Rightarrow> scan_state \<Rightarrow> scan_state" where
  "run_scan [] st = st"
| "run_scan (a # as) st = run_scan as (perform_scan a st)"

definition empty_scan_store :: "string option \<Rightarrow> nat \<Rightarrow> scan_state" where
  "empty_scan_store sto q = \<lparr>inventory = [], storage = sto, quota = q, scanCooldown = False\<rparr>"

text \<open>Every quantity of a collection is at least zero.\<close>

definition nonneg :: "item list \<Rightarrow> bool" where
  "nonneg xs = list_all (\<lambda>x. 0 \<le> quantity x) xs"

subsection \<open>Example data\<close>

definition widget :: item where
  "widget =
     \<lparr>ident = ''item_5_abcdef'', name = ''Widget'', sku = ''W-1'', category = ''Tools'',
      quantity = 2, unit = ''pcs'', notes = Some ''blue'', createdAt = Some ''t0'',
      updatedAt = Some ''t0''\<rparr>"

definition gadget :: item where
  "gadget =
     \<lparr>ident = ''item_6_xyz'', name = ''Auto Product'', sku = ''SKU-1'', category = ''Garden'',
      quantity = 7, unit = ''pcs'', notes = None, createdAt = None, updatedAt = None\<rparr>"

definition shop :: state where
  "shop = \<lparr>inventory = [widget, gadget], storage = None, quota = 5000\<rparr>"

definition scan_shop :: scan_state where
  "scan_shop = \<lparr>inventory = [widget, gadget], storage = None, quota = 5000, scanCooldown = False\<rparr>"

definition rename_widget :: updates where
  "rename_widget = no_updates\<lparr>u_name := Some ''Sprocket'', u_quantity := Some 9\<rparr>"

definition debt_draft :: itemData where
  "debt_draft =
     \<lparr>d_name = ''Widget'', d_sku = ''W-1'', d_category = ''Tools'', d_quantity = - 5,
      d_unit = ''pcs'', d_notes = Some []\<rparr>"

definition widget_draft :: itemData where
  "widget_draft =
     \<lparr>d_name = ''Widget'', d_sku = ''W-1'', d_category = ''Tools'', d_quantity = 3,
      d_unit = ''pcs'', d_notes = Some []\<rparr>"

section \<open>Properties\<close>

subsection \<open>Searching and saving\<close>

lemma findIndex_None_iff: "findIndex P xs = None \<longleftrightarrow> (\<forall>x\<in>set xs. \<not> P x)"
  by (induction xs) auto

lemma findIndex_Some_iff: "findIndex P xs = Some k \<longleftrightarrow> first_with P xs k"
proof (induction xs arbitrary: k)
  case Nil
  then show ?case by (simp add: first_with_def)
next
  case (Cons x xs)
  show ?case
  proof (cases "P x")
    case True
    then show ?thesis by (cases k) (auto simp: first_with_def)
  next
    case False
    show ?thesis
    proof (cases k)
      case 0
      with False show ?thesis by (auto simp: first_with_def)
    next
      case (Suc m)
      have "first_with P (x # xs) (Suc m) \<longleftrightarrow> first_with P xs m"
        using False by (auto simp: first_with_def less_Suc_eq_0_disj)
      with Suc False Cons.IH [of m] show ?thesis by auto
    qed
  qed
qed

lemma find_findIndex:
  "find P xs = (case findIndex P xs of None \<Rightarrow> None | Some k \<Rightarrow> Some (xs ! k))"
  by (induction xs) (auto split: option.splits)

lemma inventory_saveInventory [simp]: "inventory (saveInventory st) = inventory st"
  by (simp add: saveInventory_def setItem_def)

lemma quota_saveInventory [simp]: "quota (saveInventory st) = quota st"
  by (simp add: saveInventory_def setItem_def)

lemma inventory_saveInventory_scan [simp]: "inventory (fst (saveInventory_scan st)) = inventory st"
  by (simp add: saveInventory_scan_def setItem_def)

lemma merge_quantity_only:
  "merge old (no_updates\<lparr>u_quantity := Some q\<rparr>) t = old\<lparr>quantity := q, updatedAt := Some t\<rparr>"
  by (simp add: merge_def no_updates_def pick_def)

lemma updateItem_absent:
  "i \<notin> set (map ident (inventory st)) \<Longrightarrow> updateItem i u t st = st"
  using findIndex_None_iff [of "\<lambda>item. ident item = i" "inventory st"]
  by (auto simp: updateItem_def)

lemma updateItem_present:
  "first_with (\<lambda>x. ident x = i) (inventory st) k \<Longrightarrow>
   inventory (updateItem i u t st) = (inventory st)[k := merge (inventory st ! k) u t]"
  using findIndex_Some_iff [of "\<lambda>item. ident item = i" "inventory st" k]
  by (simp add: updateItem_def)


lemma updateQuantity_present:
  assumes "first_with (\<lambda>x. ident x = i) (inventory st) k"
  shows "inventory (updateQuantity i d t st) =
         (inventory st)[k := (inventory st ! k)\<lparr>quantity := max 0 (quantity (inventory st ! k) + d),
                                                updatedAt := Some t\<rparr>]"
proof -
  have fi: "findIndex (\<lambda>item. ident item = i) (inventory st) = Some k"
    using assms by (simp add: findIndex_Some_iff)
  show ?thesis
    by (simp add: updateQuantity_def find_findIndex fi Let_def updateItem_present [OF assms]
        merge_quantity_only)
qed


lemma changeQty_present:
  assumes "first_with (\<lambda>x. ident x = i) (inventory st) k"
  shows "inventory (fst (changeQty i d st)) =
         (inventory st)[k := (inventory st ! k)\<lparr>quantity := max 0 (quantity (inventory st ! k) + d)\<rparr>]"
proof -
  have fi: "findIndex (\<lambda>item. ident item = i) (inventory st) = Some k"
    using assms by (simp add: findIndex_Some_iff)
  show ?thesis by (simp add: changeQty_def fi)
qed


subsection \<open>The operations, case by case\<close>

lemma nonneg_update:
  "nonneg xs \<Longrightarrow> 0 \<le> quantity y \<Longrightarrow> nonneg (xs[k := y])"
proof -
  assume a: "nonneg xs" and b: "0 \<le> quantity y"
  have "set (xs[k := y]) \<subseteq> insert y (set xs)" by (rule set_update_subset_insert)
  with a b show ?thesis by (auto simp: nonneg_def list_all_iff)
qed

lemma nonneg_filter: "nonneg xs \<Longrightarrow> nonneg (filter P xs)"
  by (simp add: nonneg_def list_all_iff)

lemma nonneg_nth: "nonneg xs \<Longrightarrow> k < length xs \<Longrightarrow> 0 \<le> quantity (xs ! k)"
  by (simp add: nonneg_def list_all_length)

lemma updateItem_cases:
  "updateItem i u t st = st \<or>
   (\<exists>k. first_with (\<lambda>x. ident x = i) (inventory st) k \<and>
        inventory (updateItem i u t st) = (inventory st)[k := merge (inventory st ! k) u t])"
proof (cases "findIndex (\<lambda>item. ident item = i) (inventory st)")
  case None
  then show ?thesis by (simp add: updateItem_def)
next
  case (Some k)
  then have "first_with (\<lambda>x. ident x = i) (inventory st) k"
    by (simp add: findIndex_Some_iff)
  then show ?thesis using updateItem_present by blast
qed

lemma updateQuantity_cases:
  "updateQuantity i d t st = st \<or>
   (\<exists>k. first_with (\<lambda>x. ident x = i) (inventory st) k \<and>
        inventory (updateQuantity i d t st) =
          (inventory st)[k := (inventory st ! k)\<lparr>quantity := max 0 (quantity (inventory st ! k) + d),
                                                 updatedAt := Some t\<rparr>])"
proof (cases "findIndex (\<lambda>item. ident item = i) (inventory st)")
  case None
  then show ?thesis by (simp add: updateQuantity_def find_findIndex)
next
  case (Some k)
  then have "first_with (\<lambda>x. ident x = i) (inventory st) k"
    by (simp add: findIndex_Some_iff)
  then show ?thesis using updateQuantity_present by blast
qed

lemma inventory_deleteItem:
  "inventory (deleteItem i st) = filter (\<lambda>item. ident item \<noteq> i) (inventory st)"
proof (cases "find (\<lambda>item. ident item = i) (inventory st)")
  case None
  then have "\<forall>x\<in>set (inventory st). ident x \<noteq> i"
    by (simp add: find_None_iff)
  then have "filter (\<lambda>item. ident item \<noteq> i) (inventory st) = inventory st"
    by (simp add: filter_id_conv)
  with None show ?thesis by (simp add: deleteItem_def)
next
  case (Some x)
  then show ?thesis by (simp add: deleteItem_def)
qed

lemma perform_nonneg:
  assumes "nonneg_action a" and "nonneg (inventory st)"
  shows "nonneg (inventory (perform a st))"
proof (cases a)
  case (Add d now rnd t1 t2)
  with assms show ?thesis by (simp add: addItem_def nonneg_def)
next
  case (Update i u t)
  from updateItem_cases [of i u t st] show ?thesis
  proof
    assume "updateItem i u t st = st"
    with Update assms show ?thesis by simp
  next
    assume "\<exists>k. first_with (\<lambda>x. ident x = i) (inventory st) k \<and>
        inventory (updateItem i u t st) = (inventory st)[k := merge (inventory st ! k) u t]"
    then obtain k where k: "first_with (\<lambda>x. ident x = i) (inventory st) k"
      and e: "inventory (updateItem i u t st) = (inventory st)[k := merge (inventory st ! k) u t]"
      by blast
    from k have "k < length (inventory st)" by (simp add: first_with_def)
    then have "0 \<le> quantity (inventory st ! k)" using assms(2) by (simp add: nonneg_nth)
    then have "0 \<le> quantity (merge (inventory st ! k) u t)"
      using assms(1) Update by (simp add: merge_def pick_def split: option.splits)
    then show ?thesis using Update e assms(2) by (simp add: nonneg_update)
  qed
next
  case (Adjust i d t)
  from updateQuantity_cases [of i d t st] show ?thesis
  proof
    assume "updateQuantity i d t st = st"
    with Adjust assms show ?thesis by simp
  next
    assume "\<exists>k. first_with (\<lambda>x. ident x = i) (inventory st) k \<and>
        inventory (updateQuantity i d t st) =
          (inventory st)[k := (inventory st ! k)\<lparr>quantity := max 0 (quantity (inventory st ! k) + d),
                                                 updatedAt := Some t\<rparr>]"
    then obtain k where
      e: "inventory (updateQuantity i d t st) =
          (inventory st)[k := (inventory st ! k)\<lparr>quantity := max 0 (quantity (inventory st ! k) + d),
                                                 updatedAt := Some t\<rparr>]"
      by blast
    show ?thesis using Adjust e assms(2) by (simp add: nonneg_update)
  qed
next
  case (Remove i)
  with assms show ?thesis by (simp add: inventory_deleteItem nonneg_filter)
qed

lemma run_nonneg:
  "\<forall>a\<in>set acts. nonneg_action a \<Longrightarrow> nonneg (inventory st) \<Longrightarrow> nonneg (inventory (run acts st))"
  by (induction acts arbitrary: st) (simp_all add: perform_nonneg)

lemma changeQty_cases:
  "changeQty i d st = (st, None) \<or>
   (\<exists>k. first_with (\<lambda>x. ident x = i) (inventory st) k \<and>
        inventory (fst (changeQty i d st)) =
          (inventory st)[k := (inventory st ! k)\<lparr>quantity := max 0 (quantity (inventory st ! k) + d)\<rparr>])"
proof (cases "findIndex (\<lambda>item. ident item = i) (inventory st)")
  case None
  then show ?thesis by (simp add: changeQty_def)
next
  case (Some k)
  then have "first_with (\<lambda>x. ident x = i) (inventory st) k"
    by (simp add: findIndex_Some_iff)
  then show ?thesis using changeQty_present by blast
qed

lemma onBarcodeDetected_cooldown:
  "scanCooldown st \<Longrightarrow> onBarcodeDetected b now rnd st = (st, None)"
  by (simp add: onBarcodeDetected_def)

lemma onBarcodeDetected_known:
  assumes "\<not> scanCooldown st" and "first_with (\<lambda>x. sku x = b) (inventory st) k"
  shows "inventory (fst (onBarcodeDetected b now rnd st)) =
         (inventory st)[k := (inventory st ! k)\<lparr>quantity := quantity (inventory st ! k) + 1\<rparr>]"
proof -
  have "findIndex (\<lambda>i. sku i = b) (inventory st) = Some k"
    using assms(2) by (simp add: findIndex_Some_iff)
  then show ?thesis using assms(1) by (simp add: onBarcodeDetected_def Let_def)
qed

lemma onBarcodeDetected_unknown:
  assumes "\<not> scanCooldown st" and "b \<notin> set (map sku (inventory st))"
  shows "inventory (fst (onBarcodeDetected b now rnd st)) =
         \<lparr>ident = generateId_scan now rnd, name = ''Auto Product'', sku = b,
          category = ''General'', quantity = 1, unit = ''pcs'', notes = None,
          createdAt = None, updatedAt = None\<rparr> # inventory st"
proof -
  have "findIndex (\<lambda>i. sku i = b) (inventory st) = None"
    using assms(2) by (auto simp: findIndex_None_iff)
  then show ?thesis using assms(1) by (simp add: onBarcodeDetected_def Let_def)
qed

lemma onBarcodeDetected_cases:
  "inventory (fst (onBarcodeDetected b now rnd st)) = inventory st \<or>
   (\<exists>k<length (inventory st). inventory (fst (onBarcodeDetected b now rnd st)) =
         (inventory st)[k := (inventory st ! k)\<lparr>quantity := quantity (inventory st ! k) + 1\<rparr>]) \<or>
   inventory (fst (onBarcodeDetected b now rnd st)) =
         \<lparr>ident = generateId_scan now rnd, name = ''Auto Product'', sku = b,
          category = ''General'', quantity = 1, unit = ''pcs'', notes = None,
          createdAt = None, updatedAt = None\<rparr> # inventory st"
proof (cases "scanCooldown st")
  case True
  then show ?thesis by (simp add: onBarcodeDetected_cooldown)
next
  case False
  show ?thesis
  proof (cases "findIndex (\<lambda>i. sku i = b) (inventory st)")
    case None
    then have "b \<notin> set (map sku (inventory st))" by (auto simp: findIndex_None_iff)
    with False show ?thesis by (simp add: onBarcodeDetected_unknown)
  next
    case (Some k)
    then have k: "first_with (\<lambda>x. sku x = b) (inventory st) k" by (simp add: findIndex_Some_iff)
    then have "k < length (inventory st)" by (simp add: first_with_def)
    with False k show ?thesis using onBarcodeDetected_known by blast
  qed
qed

lemma perform_scan_nonneg:
  assumes "nonneg (inventory st)"
  shows "nonneg (inventory (perform_scan a st))"
proof (cases a)
  case (ChangeQty i d)
  from changeQty_cases [of i d st] show ?thesis
  proof
    assume "changeQty i d st = (st, None)"
    with ChangeQty assms show ?thesis by simp
  next
    assume "\<exists>k. first_with (\<lambda>x. ident x = i) (inventory st) k \<and>
        inventory (fst (changeQty i d st)) =
          (inventory st)[k := (inventory st ! k)\<lparr>quantity := max 0 (quantity (inventory st ! k) + d)\<rparr>]"
    then obtain k where
      e: "inventory (fst (changeQty i d st)) =
          (inventory st)[k := (inventory st ! k)\<lparr>quantity := max 0 (quantity (inventory st ! k) + d)\<rparr>]"
      by blast
    show ?thesis using ChangeQty e assms by (simp add: nonneg_update)
  qed
next
  case (ConfirmDelete i)
  with assms show ?thesis by (simp add: confirmDelete_def nonneg_filter)
next
  case (Barcode b now rnd)
  from onBarcodeDetected_cases [of b now rnd st] consider
    (same) "inventory (fst (onBarcodeDetected b now rnd st)) = inventory st"
  | (inc) k where "k < length (inventory st)"
      "inventory (fst (onBarcodeDetected b now rnd st)) =
         (inventory st)[k := (inventory st ! k)\<lparr>quantity := quantity (inventory st ! k) + 1\<rparr>]"
  | (new) "inventory (fst (onBarcodeDetected b now rnd st)) =
         \<lparr>ident = generateId_scan now rnd, name = ''Auto Product'', sku = b,
          category = ''General'', quantity = 1, unit = ''pcs'', notes = None,
          createdAt = None, updatedAt = None\<rparr> # inventory st"
    by blast
  then show ?thesis
  proof cases
    case same
    with Barcode assms show ?thesis by simp
  next
    case inc
    have "0 \<le> quantity (inventory st ! k)" using assms inc(1) by (simp add: nonneg_nth)
    then show ?thesis using Barcode inc(2) assms by (simp add: nonneg_update)
  next
    case new
    with Barcode assms show ?thesis by (simp add: nonneg_def)
  qed
next
  case CooldownElapsed
  with assms show ?thesis by (simp add: cooldownElapsed_def)
qed

lemma run_scan_nonneg:
  "nonneg (inventory st) \<Longrightarrow> nonneg (inventory (run_scan acts st))"
  by (induction acts arbitrary: st) (simp_all add: perform_scan_nonneg)


lemma digit_char_eval:
  "digit_char 0 = CHR ''0''" "digit_char 1 = CHR ''1''" "digit_char 2 = CHR ''2''"
  "digit_char 3 = CHR ''3''" "digit_char 4 = CHR ''4''" "digit_char 5 = CHR ''5''"
  "digit_char 6 = CHR ''6''" "digit_char 7 = CHR ''7''" "digit_char 8 = CHR ''8''"
  "digit_char 9 = CHR ''9''"
  by code_simp+

lemma generateId_example: "generateId 5 ''0.abcdef'' = ''item_5_abcdef''"
  by (simp add: generateId_def string_of_nat.simps digit_char_eval)



subsection \<open>Quantity adjustment\<close>




subsection \<open>Update\<close>

text \<open>
  C7: \<open>updateItem\<close> changes nothing when no item has the id; otherwise the first item
  with the id is replaced, at its position, by the merge of the record with the given
  properties and the new \<open>updatedAt\<close>; the length and all other records are unchanged.
\<close>

theorem updateItem_merges_in_place:
  "(i \<notin> set (map ident (inventory st)) \<longrightarrow> updateItem i u t st = st) \<and>
   (first_with (\<lambda>x. ident x = i) (inventory st) k \<longrightarrow>
      inventory (updateItem i u t st) = (inventory st)[k := merge (inventory st ! k) u t] \<and>
      length (inventory (updateItem i u t st)) = length (inventory st) \<and>
      (\<forall>j<length (inventory st). j \<noteq> k \<longrightarrow>
         inventory (updateItem i u t st) ! j = inventory st ! j) \<and>
      updatedAt (inventory (updateItem i u t st) ! k) = Some t \<and>
      ident (inventory (updateItem i u t st) ! k) = pick (u_ident u) (ident (inventory st ! k)) \<and>
      name (inventory (updateItem i u t st) ! k) = pick (u_name u) (name (inventory st ! k)) \<and>
      sku (inventory (updateItem i u t st) ! k) = pick (u_sku u) (sku (inventory st ! k)) \<and>
      category (inventory (updateItem i u t st) ! k) =
        pick (u_category u) (category (inventory st ! k)) \<and>
      quantity (inventory (updateItem i u t st) ! k) =
        pick (u_quantity u) (quantity (inventory st ! k)) \<and>
      unit (inventory (updateItem i u t st) ! k) = pick (u_unit u) (unit (inventory st ! k)) \<and>
      notes (inventory (updateItem i u t st) ! k) =
        (case u_notes u of None \<Rightarrow> notes (inventory st ! k) | Some n \<Rightarrow> Some n) \<and>
      createdAt (inventory (updateItem i u t st) ! k) =
        (case u_createdAt u of None \<Rightarrow> createdAt (inventory st ! k) | Some c \<Rightarrow> Some c))"
proof (intro conjI impI)
  assume "i \<notin> set (map ident (inventory st))"
  then show "updateItem i u t st = st" by (rule updateItem_absent)
next
  assume a: "first_with (\<lambda>x. ident x = i) (inventory st) k"
  then have k: "k < length (inventory st)" by (simp add: first_with_def)
  show e: "inventory (updateItem i u t st) = (inventory st)[k := merge (inventory st ! k) u t]"
    by (rule updateItem_present [OF a])
  show "length (inventory (updateItem i u t st)) = length (inventory st)"
    by (simp add: e)
  show "\<forall>j<length (inventory st). j \<noteq> k \<longrightarrow>
         inventory (updateItem i u t st) ! j = inventory st ! j"
    by (simp add: e)
  show "updatedAt (inventory (updateItem i u t st) ! k) = Some t"
    using k by (simp add: e merge_def)
  show "ident (inventory (updateItem i u t st) ! k) = pick (u_ident u) (ident (inventory st ! k))"
    using k by (simp add: e merge_def)
  show "name (inventory (updateItem i u t st) ! k) = pick (u_name u) (name (inventory st ! k))"
    using k by (simp add: e merge_def)
  show "sku (inventory (updateItem i u t st) ! k) = pick (u_sku u) (sku (inventory st ! k))"
    using k by (simp add: e merge_def)
  show "category (inventory (updateItem i u t st) ! k) =
        pick (u_category u) (category (inventory st ! k))"
    using k by (simp add: e merge_def)
  show "quantity (inventory (updateItem i u t st) ! k) =
        pick (u_quantity u) (quantity (inventory st ! k))"
    using k by (simp add: e merge_def)
  show "unit (inventory (updateItem i u t st) ! k) = pick (u_unit u) (unit (inventory st ! k))"
    using k by (simp add: e merge_def)
  show "notes (inventory (updateItem i u t st) ! k) =
        (case u_notes u of None \<Rightarrow> notes (inventory st ! k) | Some n \<Rightarrow> Some n)"
    using k by (simp add: e merge_def)
  show "createdAt (inventory (updateItem i u t st) ! k) =
        (case u_createdAt u of None \<Rightarrow> createdAt (inventory st ! k) | Some c \<Rightarrow> Some c)"
    using k by (simp add: e merge_def)
qed


theorem updateItem_merges_in_place_witness:
  "first_with (\<lambda>x. ident x = ''item_6_xyz'') (inventory shop) (Suc 0) \<and>
   inventory (updateItem ''item_6_xyz'' rename_widget ''t9'' shop) =
     [widget, gadget\<lparr>name := ''Sprocket'', quantity := 9, updatedAt := Some ''t9''\<rparr>] \<and>
   ''item_0_none'' \<notin> set (map ident (inventory shop)) \<and>
   updateItem ''item_0_none'' rename_widget ''t9'' shop = shop"
proof -
  have a: "first_with (\<lambda>x. ident x = ''item_6_xyz'') (inventory shop) (Suc 0)"
    by (simp add: first_with_def shop_def widget_def gadget_def)
  have b: "''item_0_none'' \<notin> set (map ident (inventory shop))"
    by (simp add: shop_def widget_def gadget_def)
  have m: "(inventory shop)[Suc 0 := merge (inventory shop ! Suc 0) rename_widget ''t9''] =
     [widget, gadget\<lparr>name := ''Sprocket'', quantity := 9, updatedAt := Some ''t9''\<rparr>]"
    by (simp add: shop_def merge_def rename_widget_def no_updates_def pick_def gadget_def)
  have "inventory (updateItem ''item_6_xyz'' rename_widget ''t9'' shop) =
        (inventory shop)[Suc 0 := merge (inventory shop ! Suc 0) rename_widget ''t9'']"
    using a updateItem_merges_in_place [where st = shop and i = "''item_6_xyz''" and u = rename_widget and t = "''t9''" and k = "Suc 0"]
    by blast
  then have r1: "inventory (updateItem ''item_6_xyz'' rename_widget ''t9'' shop) =
     [widget, gadget\<lparr>name := ''Sprocket'', quantity := 9, updatedAt := Some ''t9''\<rparr>]"
    by (simp only: m)
  have r2: "updateItem ''item_0_none'' rename_widget ''t9'' shop = shop"
    using b updateItem_merges_in_place [where st = shop and i = "''item_0_none''" and u = rename_widget and t = "''t9''" and k = 0]
    by blast
  from a b r1 r2 show ?thesis by blast
qed

subsection \<open>Quantities never negative\<close>

text \<open>
  C3 as stated fails: \<open>addItem\<close> and \<open>updateItem\<close> store the quantity they are given,
  without a clamp, so a draft with quantity -5 puts a negative quantity into the
  collection.
\<close>

theorem quantity_negative_after_add_counterexample:
  "map quantity (inventory (run [Add debt_draft 5 ''0.abcdef'' ''t1'' ''t1''] (empty_store None 5000)))
   = [- 5]"
  by (simp add: addItem_def empty_store_def debt_draft_def)

text \<open>
  C3, amended: in every state reached from the empty collection by operations whose
  drafts and update objects carry no negative quantity, every quantity is at least zero
  (\<open>updateQuantity\<close> clamps at zero); on the scan-only page, where the only writers are
  \<open>changeQty\<close>, the delete button and \<open>onBarcodeDetected\<close>, this holds for every run.
\<close>

theorem quantities_stay_nonneg:
  "((\<forall>a\<in>set acts. nonneg_action a) \<longrightarrow>
      (\<forall>x\<in>set (inventory (run acts (empty_store sto q))). 0 \<le> quantity x)) \<and>
   (\<forall>x\<in>set (inventory (run_scan sacts (empty_scan_store sto q))). 0 \<le> quantity x)"
proof (intro conjI impI)
  assume "\<forall>a\<in>set acts. nonneg_action a"
  then have "nonneg (inventory (run acts (empty_store sto q)))"
    by (rule run_nonneg) (simp add: empty_store_def nonneg_def)
  then show "\<forall>x\<in>set (inventory (run acts (empty_store sto q))). 0 \<le> quantity x"
    by (simp add: nonneg_def list_all_iff)
next
  have "nonneg (inventory (run_scan sacts (empty_scan_store sto q)))"
    by (rule run_scan_nonneg) (simp add: empty_scan_store_def nonneg_def)
  then show "\<forall>x\<in>set (inventory (run_scan sacts (empty_scan_store sto q))). 0 \<le> quantity x"
    by (simp add: nonneg_def list_all_iff)
qed

theorem quantities_stay_nonneg_witness:
  "nonneg_action (Add widget_draft 5 ''0.abcdef'' ''t1'' ''t1'') \<and>
   nonneg_action (Adjust ''item_5_abcdef'' (- 5) ''t2'') \<and>
   list_all (\<lambda>x. 0 \<le> quantity x)
     (inventory (run [Add widget_draft 5 ''0.abcdef'' ''t1'' ''t1'', Adjust ''item_5_abcdef'' (- 5) ''t2'']
                   (empty_store None 5000))) \<and>
   length (inventory (run [Add widget_draft 5 ''0.abcdef'' ''t1'' ''t1'', Adjust ''item_5_abcdef'' (- 5) ''t2'']
                   (empty_store None 5000))) = 1 \<and>
   list_all (\<lambda>x. 0 \<le> quantity x)
     (inventory (run_scan [Barcode ''SKU-1'' 5 ''0.abcdefgh'', ChangeQty ''item_5_abcdef'' (- 3)]
                   (empty_scan_store None 5000)))"
proof -
  let ?acts = "[Add widget_draft 5 ''0.abcdef'' ''t1'' ''t1'', Adjust ''item_5_abcdef'' (- 5) ''t2'']"
  let ?sacts = "[Barcode ''SKU-1'' 5 ''0.abcdefgh'', ChangeQty ''item_5_abcdef'' (- 3)]"
  have a: "\<forall>a\<in>set ?acts. nonneg_action a" by (simp add: widget_draft_def)
  have r: "\<forall>x\<in>set (inventory (run ?acts (empty_store None 5000))). 0 \<le> quantity x"
    using a quantities_stay_nonneg [where acts = ?acts and sto = None and q = 5000 and sacts = ?sacts]
    by blast
  have s: "\<forall>x\<in>set (inventory (run_scan ?sacts (empty_scan_store None 5000))). 0 \<le> quantity x"
    using quantities_stay_nonneg [where acts = ?acts and sto = None and q = 5000 and sacts = ?sacts]
    by blast
  have l: "length (inventory (run ?acts (empty_store None 5000))) = 1"
    by (simp add: addItem_def updateQuantity_def updateItem_def empty_store_def generateId_example
        Let_def)
  from a r s l show ?thesis by (simp add: list_all_iff)
qed

subsection \<open>Adding an item\<close>






subsection \<open>Ids\<close>












subsection \<open>Barcode scan\<close>




subsection \<open>Categories\<close>

text \<open>
  On the manual page \<open>getCategories\<close> returns the categories of the items without
  duplicates, in ascending order.
\<close>

lemma set_Set_add: "set (Set_add acc xs) = set acc \<union> set xs"
  by (induction xs arbitrary: acc) auto

lemma distinct_Set_add: "distinct acc \<Longrightarrow> distinct (Set_add acc xs)"
  by (induction xs arbitrary: acc) auto

lemma getCategories_sorted_distinct:
  "sorted (getCategories st) \<and> distinct (getCategories st) \<and>
   set (getCategories st) = category ` set (inventory st)"
  by (simp add: getCategories_def set_Set_add distinct_Set_add)

lemma getCategories_scan_distinct:
  "distinct (getCategories_scan st) \<and> set (getCategories_scan st) = category ` set (inventory st)"
  by (simp add: getCategories_scan_def set_Set_add distinct_Set_add)

text \<open>
  C4 (categories are distinct and sorted ascending): the scan-only page's
  \<open>getCategories\<close> lacks the \<open>.sort()\<close> of the manual page. For the items with
  categories \<open>Tools\<close>, \<open>Garden\<close> it returns them in this order, which is not ascending;
  the manual page returns \<open>Garden\<close>, \<open>Tools\<close>.
\<close>

theorem getCategories_scan_unsorted:
  "getCategories_scan scan_shop = [''Tools'', ''Garden''] \<and>
   \<not> sorted (getCategories_scan scan_shop) \<and>
   getCategories shop = [''Garden'', ''Tools'']"
  by (simp add: getCategories_scan_def getCategories_def scan_shop_def shop_def widget_def
      gadget_def less_eq_char_def less_char_def)


subsection \<open>Filter\<close>

text \<open>
  On the manual page the filter keeps, in the collection's order, exactly the items whose
  lower-cased name or lower-cased sku contains the lower-cased query and whose category
  is the selected one (any category for \<open>all\<close>).
\<close>

lemma startsWith_iff: "startsWith s q \<longleftrightarrow> (\<exists>post. s = q @ post)"
proof
  assume "startsWith s q"
  then have "s = q @ drop (length q) s"
    by (metis append_take_drop_id startsWith_def)
  then show "\<exists>post. s = q @ post" ..
next
  assume "\<exists>post. s = q @ post"
  then show "startsWith s q" by (auto simp: startsWith_def)
qed

lemma includes_iff: "includes s q \<longleftrightarrow> (\<exists>pre post. s = pre @ q @ post)"
proof (induction s)
  case Nil
  then show ?case by auto
next
  case (Cons c s)
  show ?case
  proof
    assume "includes (c # s) q"
    then consider "startsWith (c # s) q" | "includes s q" by auto
    then show "\<exists>pre post. c # s = pre @ q @ post"
    proof cases
      case 1
      then obtain post where "c # s = q @ post" by (auto simp: startsWith_iff)
      then have "c # s = [] @ q @ post" by simp
      then show ?thesis by blast
    next
      case 2
      then obtain pre post where "s = pre @ q @ post" using Cons.IH by blast
      then have "c # s = (c # pre) @ q @ post" by simp
      then show ?thesis by blast
    qed
  next
    assume "\<exists>pre post. c # s = pre @ q @ post"
    then obtain pre post where e: "c # s = pre @ q @ post" by blast
    show "includes (c # s) q"
    proof (cases pre)
      case Nil
      with e have "startsWith (c # s) q" by (auto simp: startsWith_iff)
      then show ?thesis by simp
    next
      case (Cons p ps)
      with e have "s = ps @ q @ post" by simp
      then have "includes s q" using Cons.IH by blast
      then show ?thesis by simp
    qed
  qed
qed

lemma filteredItems_spec:
  "filteredItems query cat st =
     filter (\<lambda>x. ((\<exists>pre post. toLowerCase (name x) = pre @ toLowerCase query @ post) \<or>
                  (\<exists>pre post. toLowerCase (sku x) = pre @ toLowerCase query @ post)) \<and>
                 (cat = ''all'' \<or> category x = cat))
       (inventory st)"
  by (simp add: filteredItems_def includes_iff Let_def)

lemma lower_examples:
  "toLowerCase ''SKU-1'' = ''sku-1''" "toLowerCase ''sku'' = ''sku''"
  "toLowerCase ''Auto Product'' = ''auto product''" "toLowerCase ''Widget'' = ''widget''"
  "toLowerCase ''W-1'' = ''w-1''"
  by code_simp+

text \<open>
  C5 (case-insensitive match of the query against name or sku): the scan-only page
  lower-cases the query and the name but not the sku. The item with sku \<open>SKU-1\<close> is in
  the collection and its sku contains the query \<open>sku\<close> up to case, yet the scan-only
  filter returns nothing; the manual page's filter returns the item.
\<close>

theorem filteredItems_scan_misses_sku:
  "gadget \<in> set (inventory scan_shop) \<and>
   includes (toLowerCase (sku gadget)) (toLowerCase ''sku'') \<and>
   filteredItems_scan ''sku'' ''all'' scan_shop = [] \<and>
   filteredItems ''sku'' ''all'' shop = [gadget]"
  by (simp add: filteredItems_scan_def filteredItems_def scan_shop_def shop_def gadget_def
      widget_def lower_examples startsWith_def Let_def)


subsection \<open>Loading\<close>

text \<open>
  On the manual page \<open>loadInventory\<close> yields the empty array for an absent slot and for
  text that \<open>JSON.parse\<close> rejects, and the decoded value otherwise; it has no way to
  raise.
\<close>

lemma loadInventory_cases:
  "(storage st = None \<longrightarrow> loadInventory st = JArray []) \<and>
   (storage st = Some s \<and> JSON_parse s = Inl e \<longrightarrow> loadInventory st = JArray []) \<and>
   (storage st = Some s \<and> s \<noteq> [] \<and> JSON_parse s = Inr v \<longrightarrow> loadInventory st = v)"
  by (simp add: loadInventory_def getItem_def)

lemma parse_null: "JSON_parse ''null'' = Inr JNull"
  by (simp add: JSON_parse_def skip_ws_def is_ws_def parse_scalar_def parse_literal_def)

text \<open>On the scan-only page an absent slot gives the empty array as well.\<close>

lemma loadInventory_scan_absent: "storage st = None \<Longrightarrow> loadInventory_scan st = Inr (JArray [])"
  by (simp add: loadInventory_scan_def getItem_def parse_null truthy_def)

lemma parse_open_brace: "JSON_parse ''{'' = Inl SyntaxError"
  by (simp add: JSON_parse_def skip_ws_def is_ws_def)

text \<open>
  C1 (load never raises; malformed content gives the empty collection): the scan-only
  page's \<open>loadInventory\<close> has no \<open>try\<close>/\<open>catch\<close>. With the malformed text \<open>{\<close> in the
  slot it raises the \<open>SyntaxError\<close> of \<open>JSON.parse\<close> to its caller, where the manual
  page's \<open>loadInventory\<close> returns the empty array.
\<close>

theorem loadInventory_scan_raises:
  "loadInventory_scan (scan_shop\<lparr>storage := Some ''{''\<rparr>) = Inl SyntaxError \<and>
   loadInventory (shop\<lparr>storage := Some ''{''\<rparr>) = JArray []"
  by (simp add: loadInventory_scan_def loadInventory_def getItem_def parse_open_brace)

subsection \<open>Saving and loading\<close>

text \<open>Decimal digits: \<open>nat_of_digits\<close> reads back what \<open>string_of_nat\<close> writes.\<close>

lemma of_char_digits:
  "of_char (CHR ''0'') = (48::nat)" "of_char (CHR ''9'') = (57::nat)"
  "of_char (CHR ''a'') = (97::nat)" "of_char (CHR ''f'') = (102::nat)"
  "of_char (CHR ''A'') = (65::nat)" "of_char (CHR ''F'') = (70::nat)"
  by simp_all

lemma digit_char_props:
  assumes "d < 10"
  shows "is_digit (digit_char d)" and "digit_val (digit_char d) = d"
  using assms by (simp_all add: is_digit_def digit_char_def digit_val_def less_eq_char_def)

lemma is_digit_of_char: "is_digit c \<longleftrightarrow> 48 \<le> (of_char c :: nat) \<and> (of_char c :: nat) \<le> 57"
  by (simp add: is_digit_def less_eq_char_def)

lemma string_of_nat_digits: "list_all is_digit (string_of_nat n)"
proof (induction n rule: string_of_nat.induct)
  case (1 n)
  show ?case
  proof (cases "n < 10")
    case True
    then show ?thesis by (subst string_of_nat.simps) (simp add: digit_char_props)
  next
    case False
    then have "list_all is_digit (string_of_nat (n div 10))" by (rule "1.IH")
    moreover have "is_digit (digit_char (n mod 10))" by (simp add: digit_char_props)
    ultimately show ?thesis using False by (subst string_of_nat.simps) simp
  qed
qed

lemma string_of_nat_nonempty: "string_of_nat n \<noteq> []"
  by (subst string_of_nat.simps) simp














lemma parse_chars_plain:
  assumes "c \<noteq> CHR 0x22" and "c \<noteq> CHR 0x5C" and "\<not> of_char c < (32::nat)"
  shows "parse_chars (c # t) = cons_result c (parse_chars t)"
  using assms by simp

lemma parse_chars_escape:
  assumes "unescape e = Some ch" and "e \<noteq> CHR ''u''"
  shows "parse_chars (CHR 0x5C # e # t) = cons_result ch (parse_chars t)"
  using assms by simp





lemma not_ws:
  "\<not> is_ws (CHR ''['')" "\<not> is_ws (CHR '']'')" "\<not> is_ws (CHR ''{'')" "\<not> is_ws (CHR ''}'')"
  "\<not> is_ws (CHR 0x22)" "\<not> is_ws (CHR '','')" "\<not> is_ws (CHR '':'')"
  "\<not> is_ws (CHR ''t'')" "\<not> is_ws (CHR ''f'')" "\<not> is_ws (CHR ''n'')" "\<not> is_ws (CHR ''-'')"
  by (simp_all add: is_ws_def)

lemma digit_not_special:
  assumes "is_digit c"
  shows "\<not> is_ws c" "c \<noteq> CHR ''[''" "c \<noteq> CHR '']''" "c \<noteq> CHR ''{''" "c \<noteq> CHR ''}''"
    "c \<noteq> CHR 0x22" "c \<noteq> CHR ''t''" "c \<noteq> CHR ''f''" "c \<noteq> CHR ''n''"
  using assms by (auto simp: is_digit_of_char is_ws_def)












declare parse_value.simps [simp del] parse_elements.simps [simp del] parse_members.simps [simp del]


lemma stringify_head:
  assumes "wf_json v"
  shows "\<exists>c t. JSON_stringify v = c # t \<and> \<not> is_ws c \<and> c \<noteq> CHR '']'' \<and> c \<noteq> CHR ''}''"
proof (cases v)
  case JNull
  then show ?thesis by (simp add: not_ws)
next
  case (JBool b)
  then show ?thesis by (simp add: not_ws)
next
  case (JNum n)
  obtain c r where cr: "string_of_nat (nat \<bar>n\<bar>) = c # r"
    using string_of_nat_nonempty [of "nat \<bar>n\<bar>"] by (cases "string_of_nat (nat \<bar>n\<bar>)") auto
  have d: "is_digit c" using string_of_nat_digits [of "nat \<bar>n\<bar>"] cr by simp
  show ?thesis
  proof (cases "n < 0")
    case True
    then show ?thesis using JNum by (simp add: not_ws)
  next
    case False
    then have "nat \<bar>n\<bar> = nat n" by simp
    with False JNum cr d show ?thesis by (simp add: digit_not_special)
  qed
next
  case (JDec m k)
  with assms show ?thesis by simp
next
  case (JStr s)
  then show ?thesis by (simp add: QuoteJSONString_def not_ws)
next
  case (JArray vs)
  then show ?thesis by (simp add: not_ws)
next
  case (JObject kvs)
  then show ?thesis by (simp add: not_ws)
qed

lemma stringify_nonempty: "wf_json v \<Longrightarrow> 0 < length (JSON_stringify v)"
  using stringify_head [of v] by auto






text \<open>Every well-formed value is read back from its text.\<close>

lemma member_text_eq:
  "(\<lambda>(k, v). QuoteJSONString k @ CHR '':'' # JSON_stringify v) = member_text"
  by (auto simp: member_text_def fun_eq_iff)

lemma stringify_object:
  "JSON_stringify (JObject kvs) = CHR ''{'' # join '','' (map member_text kvs) @ ''}''"
  by (simp add: member_text_eq)




















subsection \<open>The fuel of \<open>JSON_parse\<close>\<close>

text \<open>
  More fuel never changes a result, every parser consumes input, and a parse that
  succeeds with any fuel succeeds with the fuel that \<open>JSON_parse\<close> supplies. So
  \<open>JSON_parse\<close> rejects a text only if the grammar does.
\<close>

lemma parse_fuel_Suc:
  "(\<forall>s x. parse_value n s = Some x \<longrightarrow> parse_value (Suc n) s = Some x) \<and>
   (\<forall>s x. parse_elements n s = Some x \<longrightarrow> parse_elements (Suc n) s = Some x) \<and>
   (\<forall>acc s x. parse_members n acc s = Some x \<longrightarrow> parse_members (Suc n) acc s = Some x)"
proof (induction n)
  case 0
  show ?case by (simp add: parse_value.simps parse_elements.simps parse_members.simps)
next
  case (Suc m)
  then have v: "\<And>s x. parse_value m s = Some x \<Longrightarrow> parse_value (Suc m) s = Some x"
    and e: "\<And>s x. parse_elements m s = Some x \<Longrightarrow> parse_elements (Suc m) s = Some x"
    and ms: "\<And>acc s x. parse_members m acc s = Some x \<Longrightarrow> parse_members (Suc m) acc s = Some x"
    by blast+
  have V: "parse_value (Suc (Suc m)) s = Some x" if a: "parse_value (Suc m) s = Some x" for s x
  proof (cases "skip_ws s")
    case Nil
    with a show ?thesis by (simp add: parse_value.simps)
  next
    case (Cons c r)
    consider (arr) "c = CHR ''[''" | (obj) "c = CHR ''{''" | (sc) "c \<noteq> CHR ''[''" "c \<noteq> CHR ''{''"
      by blast
    then show ?thesis
    proof cases
      case arr
      show ?thesis
      proof (cases "skip_ws r")
        case Nil
        with a Cons arr show ?thesis by (simp add: parse_value.simps)
      next
        case (Cons d r')
        show ?thesis
        proof (cases "d = CHR '']''")
          case True
          with a \<open>skip_ws s = c # r\<close> arr Cons show ?thesis
            by (simp add: parse_value.simps(2) [of _ s])
        next
          case False
          with a \<open>skip_ws s = c # r\<close> arr Cons
          obtain vs r'' where p: "parse_elements m r = Some (vs, r'')" and x: "x = (JArray vs, r'')"
            by (auto simp: parse_value.simps(2) [of m s] split: option.splits)
          from p have "parse_elements (Suc m) r = Some (vs, r'')" by (rule e)
          with False \<open>skip_ws s = c # r\<close> arr Cons x show ?thesis
            by (simp add: parse_value.simps(2) [of "Suc m" s])
        qed
      qed
    next
      case obj
      show ?thesis
      proof (cases "skip_ws r")
        case Nil
        with a Cons obj show ?thesis by (simp add: parse_value.simps)
      next
        case (Cons d r')
        show ?thesis
        proof (cases "d = CHR ''}''")
          case True
          with a \<open>skip_ws s = c # r\<close> obj Cons show ?thesis
            by (simp add: parse_value.simps(2) [of _ s])
        next
          case False
          with a \<open>skip_ws s = c # r\<close> obj Cons
          obtain kvs r'' where p: "parse_members m [] r = Some (kvs, r'')"
            and x: "x = (JObject kvs, r'')"
            by (auto simp: parse_value.simps(2) [of m s] split: option.splits)
          from p have "parse_members (Suc m) [] r = Some (kvs, r'')" by (rule ms)
          with False \<open>skip_ws s = c # r\<close> obj Cons x show ?thesis
            by (simp add: parse_value.simps(2) [of "Suc m" s])
        qed
      qed
    next
      case sc
      with a Cons show ?thesis by (simp add: parse_value.simps(2) [of _ s])
    qed
  qed
  have E: "parse_elements (Suc (Suc m)) s = Some x" if a: "parse_elements (Suc m) s = Some x" for s x
  proof -
    from a obtain v0 r where p: "parse_value m s = Some (v0, r)"
      by (auto simp: parse_elements.simps(2) [of m s] split: option.splits)
    then have p': "parse_value (Suc m) s = Some (v0, r)" by (rule v)
    show ?thesis
    proof (cases "skip_ws r")
      case Nil
      with a p show ?thesis by (simp add: parse_elements.simps(2) [of m s])
    next
      case (Cons c r')
      consider (more) "c = CHR '',''" | (last) "c \<noteq> CHR '',''" "c = CHR '']''"
        | (bad) "c \<noteq> CHR '',''" "c \<noteq> CHR '']''"
        by blast
      then show ?thesis
      proof cases
        case more
        with a p Cons obtain vs r2 where q: "parse_elements m r' = Some (vs, r2)"
          and x: "x = (v0 # vs, r2)"
          by (auto simp: parse_elements.simps(2) [of m s] cons_result_def split: option.splits)
        from q have "parse_elements (Suc m) r' = Some (vs, r2)" by (rule e)
        with p' Cons more x show ?thesis
          by (simp add: parse_elements.simps(2) [of "Suc m" s] cons_result_def)
      next
        case last
        with a p p' Cons show ?thesis
          by (simp add: parse_elements.simps(2) [of _ s])
      next
        case bad
        with a p Cons show ?thesis by (simp add: parse_elements.simps(2) [of m s])
      qed
    qed
  qed
  have M: "parse_members (Suc (Suc m)) acc s = Some x"
    if a: "parse_members (Suc m) acc s = Some x" for acc s x
  proof -
    from a obtain k r2 where pk: "parse_key s = Some (k, r2)"
      by (auto simp: parse_members.simps(2) [of m acc s] split: option.splits)
    with a obtain v0 r3 where p: "parse_value m r2 = Some (v0, r3)"
      by (auto simp: parse_members.simps(2) [of m acc s] split: option.splits)
    then have p': "parse_value (Suc m) r2 = Some (v0, r3)" by (rule v)
    show ?thesis
    proof (cases "skip_ws r3")
      case Nil
      with a pk p show ?thesis by (simp add: parse_members.simps(2) [of m acc s])
    next
      case (Cons d r4)
      consider (more) "d = CHR '',''" | (last) "d \<noteq> CHR '',''" "d = CHR ''}''"
        | (bad) "d \<noteq> CHR '',''" "d \<noteq> CHR ''}''"
        by blast
      then show ?thesis
      proof cases
        case more
        with a pk p Cons have "parse_members m (obj_put acc k v0) r4 = Some x"
          by (simp add: parse_members.simps(2) [of m acc s])
        then have "parse_members (Suc m) (obj_put acc k v0) r4 = Some x" by (rule ms)
        with pk p' Cons more show ?thesis
          by (simp add: parse_members.simps(2) [of "Suc m" acc s])
      next
        case last
        with a pk p p' Cons show ?thesis
          by (simp add: parse_members.simps(2) [of _ acc s])
      next
        case bad
        with a pk p Cons show ?thesis by (simp add: parse_members.simps(2) [of m acc s])
      qed
    qed
  qed
  from V E M show ?case by blast
qed

lemma parse_value_fuel_mono:
  "parse_value n s = Some x \<Longrightarrow> n \<le> k \<Longrightarrow> parse_value k s = Some x"
proof (induction k)
  case 0
  then show ?case by simp
next
  case (Suc k)
  show ?case
  proof (cases "n = Suc k")
    case True
    with Suc.prems show ?thesis by simp
  next
    case False
    with Suc.prems have "n \<le> k" by simp
    with Suc have "parse_value k s = Some x" by simp
    then show ?thesis using parse_fuel_Suc by blast
  qed
qed

lemma parse_elements_fuel_mono:
  "parse_elements n s = Some x \<Longrightarrow> n \<le> k \<Longrightarrow> parse_elements k s = Some x"
proof (induction k)
  case 0
  then show ?case by simp
next
  case (Suc k)
  show ?case
  proof (cases "n = Suc k")
    case True
    with Suc.prems show ?thesis by simp
  next
    case False
    with Suc.prems have "n \<le> k" by simp
    with Suc have "parse_elements k s = Some x" by simp
    then show ?thesis using parse_fuel_Suc by blast
  qed
qed

lemma parse_members_fuel_mono:
  "parse_members n acc s = Some x \<Longrightarrow> n \<le> k \<Longrightarrow> parse_members k acc s = Some x"
proof (induction k)
  case 0
  then show ?case by simp
next
  case (Suc k)
  show ?case
  proof (cases "n = Suc k")
    case True
    with Suc.prems show ?thesis by simp
  next
    case False
    with Suc.prems have "n \<le> k" by simp
    with Suc have "parse_members k acc s = Some x" by simp
    then show ?thesis using parse_fuel_Suc by blast
  qed
qed

lemma length_skip_ws: "length (skip_ws s) \<le> length s"
  by (simp add: skip_ws_def length_dropWhile_le)

lemma skip_ws_Cons_length: "skip_ws s = c # r \<Longrightarrow> length r < length s"
  using length_skip_ws [of s] by simp

lemma cons_result_Some:
  "cons_result x p = Some (ys, r) \<Longrightarrow> \<exists>xs. p = Some (xs, r) \<and> ys = x # xs"
  by (auto simp: cons_result_def split: option.splits)

lemma parse_chars_quote: "parse_chars (CHR 0x22 # t) = Some ([], t)"
  by simp

lemma parse_chars_backslash_end: "parse_chars [CHR 0x5C] = None"
  by simp

lemma parse_chars_unicode:
  "parse_chars (CHR 0x5C # CHR ''u'' # t) =
     (case parse_hex4 t of
        None \<Rightarrow> None
      | Some u \<Rightarrow> if u < 256 then cons_result (char_of u) (parse_chars (drop 4 t)) else None)"
  by simp

lemma parse_chars_escaped:
  "e \<noteq> CHR ''u'' \<Longrightarrow>
   parse_chars (CHR 0x5C # e # t) =
     (case unescape e of None \<Rightarrow> None | Some ch \<Rightarrow> cons_result ch (parse_chars t))"
  by simp

lemma parse_chars_other:
  "c \<noteq> CHR 0x22 \<Longrightarrow> c \<noteq> CHR 0x5C \<Longrightarrow>
   parse_chars (c # t) = (if of_char c < (32::nat) then None else cons_result c (parse_chars t))"
  by simp

lemma parse_chars_shorter: "parse_chars s = Some (x, r) \<Longrightarrow> length r < length s"
proof (induction "length s" arbitrary: s x rule: less_induct)
  case less
  note IH = less.hyps
  note a = less.prems
  show ?case
  proof (cases s)
    case Nil
    from a have "parse_chars [] = Some (x, r)" unfolding Nil .
    then show ?thesis by (simp only: parse_chars.simps(1)) simp
  next
    case (Cons c t)
    from a have a1: "parse_chars (c # t) = Some (x, r)" unfolding Cons .
    consider (q) "c = CHR 0x22" | (b) "c = CHR 0x5C" | (o) "c \<noteq> CHR 0x22" "c \<noteq> CHR 0x5C"
      by blast
    then show ?thesis
    proof cases
      case q
      from a1 have "Some ([], t) = Some (x, r)" unfolding q parse_chars_quote .
      then have "r = t" by simp
      then show ?thesis by (simp add: Cons)
    next
      case b
      from a1 have a2: "parse_chars (CHR 0x5C # t) = Some (x, r)" unfolding b .
      show ?thesis
      proof (cases t)
        case Nil
        from a2 have "None = Some (x, r)" unfolding Nil parse_chars_backslash_end .
        then show ?thesis by simp
      next
        case (Cons e t')
        from a2 have a3: "parse_chars (CHR 0x5C # e # t') = Some (x, r)" unfolding Cons .
        have len: "length t' < length s" "length (drop 4 t') < length s"
          by (simp_all add: \<open>s = c # t\<close> Cons)
        show ?thesis
        proof (cases "e = CHR ''u''")
          case True
          from a3
          have "(case parse_hex4 t' of None \<Rightarrow> None
                 | Some u \<Rightarrow> if u < 256 then cons_result (char_of u) (parse_chars (drop 4 t'))
                            else None) = Some (x, r)"
            unfolding True parse_chars_unicode .
          then obtain u :: nat
            where "cons_result (char_of u) (parse_chars (drop 4 t')) = Some (x, r)"
            by (cases "parse_hex4 t'") (auto split: if_splits simp del: parse_chars.simps)
          from cons_result_Some [OF this] obtain xs where "parse_chars (drop 4 t') = Some (xs, r)"
            by blast
          from IH [OF len(2) this] have "length r < length (drop 4 t')" .
          then show ?thesis by (simp add: \<open>s = c # t\<close> Cons)
        next
          case False
          from a3 have "(case unescape e of None \<Rightarrow> None
                      | Some ch \<Rightarrow> cons_result ch (parse_chars t')) = Some (x, r)"
            unfolding parse_chars_escaped [OF False] .
          then obtain ch where "cons_result ch (parse_chars t') = Some (x, r)"
            by (cases "unescape e") (auto simp del: parse_chars.simps)
          from cons_result_Some [OF this] obtain xs where "parse_chars t' = Some (xs, r)"
            by blast
          from IH [OF len(1) this] have "length r < length t'" .
          then show ?thesis by (simp add: \<open>s = c # t\<close> Cons)
        qed
      qed
    next
      case o
      from a1
      have "(if of_char c < (32::nat) then None else cons_result c (parse_chars t)) = Some (x, r)"
        unfolding parse_chars_other [OF o] .
      then have "cons_result c (parse_chars t) = Some (x, r)"
        by (auto split: if_splits simp del: parse_chars.simps)
      from cons_result_Some [OF this] obtain xs where p: "parse_chars t = Some (xs, r)"
        by blast
      have "length t < length s" by (simp add: Cons)
      from IH [OF this p] have "length r < length t" .
      then show ?thesis by (simp add: Cons)
    qed
  qed
qed

lemma parse_literal_shorter:
  "parse_literal w v s = Some (x, r) \<Longrightarrow> w \<noteq> [] \<Longrightarrow> length r < length s"
  by (cases s) (auto simp: parse_literal_def split: if_splits)

lemma parse_fraction_shorter: "parse_fraction s = Some (fs, r) \<Longrightarrow> length r \<le> length s"
  by (cases s) (auto simp: parse_fraction_def length_dropWhile_le le_SucI split: if_splits)

lemma parse_sign_shorter: "parse_sign s = (sg, r) \<Longrightarrow> length r \<le> length s"
  by (cases s) (auto simp: parse_sign_def split: if_splits)

lemma parse_exponent_shorter: "parse_exponent s = Some (e, r) \<Longrightarrow> length r \<le> length s"
proof (cases s)
  case Nil
  assume "parse_exponent s = Some (e, r)"
  with Nil show ?thesis by (simp add: parse_exponent_def)
next
  case (Cons c t)
  assume a: "parse_exponent s = Some (e, r)"
  show ?thesis
  proof (cases "c = CHR ''e'' \<or> c = CHR ''E''")
    case True
    obtain sg r1 where ps: "parse_sign t = (sg, r1)" by (cases "parse_sign t") auto
    with a Cons True have "r = dropWhile is_digit r1"
      by (auto simp: parse_exponent_def split: if_splits)
    moreover have "length r1 \<le> length t" using ps by (rule parse_sign_shorter)
    moreover have "length (dropWhile is_digit r1) \<le> length r1" by (rule length_dropWhile_le)
    ultimately show ?thesis using Cons by simp
  next
    case False
    with a Cons show ?thesis by (auto simp: parse_exponent_def)
  qed
qed

lemma parse_int_part_length: "length (parse_int_part s) \<le> length s"
proof (cases s)
  case Nil
  then show ?thesis by (simp add: parse_int_part_def)
next
  case (Cons c t)
  have "length (takeWhile is_digit s) \<le> length s" by (rule length_takeWhile_le)
  with Cons show ?thesis by (simp add: parse_int_part_def)
qed

lemma parse_number_shorter:
  assumes "parse_number s = Some (x, r)"
  shows "length r < length s"
proof -
  let ?neg = "s \<noteq> [] \<and> hd s = CHR ''-''"
  let ?s1 = "if ?neg then tl s else s"
  let ?ip = "parse_int_part ?s1"
  from assms have ip: "?ip \<noteq> []"
    by (auto simp: parse_number_def Let_def split: if_splits)
  from assms ip obtain fs s3 where pf: "parse_fraction (drop (length ?ip) ?s1) = Some (fs, s3)"
    by (auto simp: parse_number_def Let_def split: option.splits if_splits)
  from assms ip pf obtain e where pe: "parse_exponent s3 = Some (e, r)"
    by (auto simp: parse_number_def Let_def split: option.splits if_splits)
  have "length r \<le> length s3" using pe by (rule parse_exponent_shorter)
  moreover have "length s3 \<le> length (drop (length ?ip) ?s1)" using pf by (rule parse_fraction_shorter)
  moreover have "length (drop (length ?ip) ?s1) < length ?s1"
    using ip parse_int_part_length [of ?s1] by (cases "?ip") auto
  moreover have "length ?s1 \<le> length s" by simp
  ultimately show ?thesis by linarith
qed

lemma parse_scalar_shorter: "parse_scalar s = Some (x, r) \<Longrightarrow> length r < length s"
proof (cases s)
  case Nil
  assume "parse_scalar s = Some (x, r)"
  with Nil show ?thesis by (simp add: parse_scalar_def)
next
  case (Cons c t)
  assume a: "parse_scalar s = Some (x, r)"
  consider (str) "c = CHR 0x22"
    | (lit) w v where "parse_literal w v s = Some (x, r)" "w \<noteq> []"
    | (num) "parse_number s = Some (x, r)"
    using a Cons by (auto simp: parse_scalar_def split: if_splits)
  then show ?thesis
  proof cases
    case str
    with a Cons obtain y where "parse_chars t = Some (y, r)"
      by (auto simp: parse_scalar_def split: option.splits)
    then have "length r < length t" by (rule parse_chars_shorter)
    with Cons show ?thesis by simp
  next
    case lit
    then show ?thesis by (rule parse_literal_shorter)
  next
    case num
    then show ?thesis by (rule parse_number_shorter)
  qed
qed

lemma parse_key_shorter: "parse_key s = Some (k, r) \<Longrightarrow> length r < length s"
proof -
  assume a: "parse_key s = Some (k, r)"
  then obtain t where t: "skip_ws s = CHR 0x22 # t"
    by (cases "skip_ws s") (auto simp: parse_key_def split: if_splits)
  with a obtain r1 where pc: "parse_chars t = Some (k, r1)"
    by (auto simp: parse_key_def split: option.splits list.splits if_splits)
  with a t have sk: "skip_ws r1 = CHR '':'' # r"
    by (cases "skip_ws r1") (auto simp: parse_key_def split: if_splits)
  have "length r < length r1" using sk by (rule skip_ws_Cons_length)
  moreover have "length r1 < length t" using pc by (rule parse_chars_shorter)
  moreover have "length t < length s" using t by (rule skip_ws_Cons_length)
  ultimately show ?thesis by linarith
qed

lemma parse_fuel_bound:
  "(\<forall>s v r. parse_value n s = Some (v, r) \<longrightarrow>
      length r < length s \<and> parse_value (length s - length r) s = Some (v, r)) \<and>
   (\<forall>s vs r. parse_elements n s = Some (vs, r) \<longrightarrow>
      length r < length s \<and> parse_elements (length s - length r) s = Some (vs, r)) \<and>
   (\<forall>acc s kvs r. parse_members n acc s = Some (kvs, r) \<longrightarrow>
      length r < length s \<and> parse_members (length s - length r) acc s = Some (kvs, r))"
proof (induction n)
  case 0
  show ?case by (simp add: parse_value.simps parse_elements.simps parse_members.simps)
next
  case (Suc m)
  then have v: "\<And>s v r. parse_value m s = Some (v, r) \<Longrightarrow>
        length r < length s \<and> parse_value (length s - length r) s = Some (v, r)"
    and e: "\<And>s vs r. parse_elements m s = Some (vs, r) \<Longrightarrow>
        length r < length s \<and> parse_elements (length s - length r) s = Some (vs, r)"
    and ms: "\<And>acc s kvs r. parse_members m acc s = Some (kvs, r) \<Longrightarrow>
        length r < length s \<and> parse_members (length s - length r) acc s = Some (kvs, r)"
    by blast+
  have V: "length r < length s \<and> parse_value (length s - length r) s = Some (v0, r)"
    if a: "parse_value (Suc m) s = Some (v0, r)" for s v0 r
  proof (cases "skip_ws s")
    case Nil
    with a show ?thesis by (simp add: parse_value.simps)
  next
    case (Cons c r0)
    have l0: "length r0 < length s" using Cons by (rule skip_ws_Cons_length)
    consider (arr) "c = CHR ''[''" | (obj) "c = CHR ''{''" | (sc) "c \<noteq> CHR ''[''" "c \<noteq> CHR ''{''"
      by blast
    then show ?thesis
    proof cases
      case arr
      show ?thesis
      proof (cases "skip_ws r0")
        case Nil
        with a Cons arr show ?thesis by (simp add: parse_value.simps)
      next
        case (Cons d r')
        have l1: "length r' < length r0" using Cons by (rule skip_ws_Cons_length)
        show ?thesis
        proof (cases "d = CHR '']''")
          case True
          with a \<open>skip_ws s = c # r0\<close> arr Cons have x: "v0 = JArray []" "r = r'"
            by (simp_all add: parse_value.simps(2) [of m s])
          from l0 l1 x obtain k where k: "length s - length r = Suc k"
            by (cases "length s - length r") auto
          from True \<open>skip_ws s = c # r0\<close> arr Cons x
          have "parse_value (Suc k) s = Some (v0, r)"
            by (simp add: parse_value.simps(2) [of k s])
          with k l0 l1 x show ?thesis by simp
        next
          case False
          with a \<open>skip_ws s = c # r0\<close> arr Cons
          obtain vs where p: "parse_elements m r0 = Some (vs, r)" and x: "v0 = JArray vs"
            by (auto simp: parse_value.simps(2) [of m s] split: option.splits)
          from e [OF p] have l2: "length r < length r0"
            and p2: "parse_elements (length r0 - length r) r0 = Some (vs, r)" by simp_all
          from l0 l2 obtain k where k: "length s - length r = Suc k" "length r0 - length r \<le> k"
            by (cases "length s - length r") auto
          from p2 k(2) have "parse_elements k r0 = Some (vs, r)" by (rule parse_elements_fuel_mono)
          with False \<open>skip_ws s = c # r0\<close> arr Cons x
          have "parse_value (Suc k) s = Some (v0, r)"
            by (simp add: parse_value.simps(2) [of k s])
          with k l0 l2 show ?thesis by simp
        qed
      qed
    next
      case obj
      show ?thesis
      proof (cases "skip_ws r0")
        case Nil
        with a Cons obj show ?thesis by (simp add: parse_value.simps)
      next
        case (Cons d r')
        have l1: "length r' < length r0" using Cons by (rule skip_ws_Cons_length)
        show ?thesis
        proof (cases "d = CHR ''}''")
          case True
          with a \<open>skip_ws s = c # r0\<close> obj Cons have x: "v0 = JObject []" "r = r'"
            by (simp_all add: parse_value.simps(2) [of m s])
          from l0 l1 x obtain k where k: "length s - length r = Suc k"
            by (cases "length s - length r") auto
          from True \<open>skip_ws s = c # r0\<close> obj Cons x
          have "parse_value (Suc k) s = Some (v0, r)"
            by (simp add: parse_value.simps(2) [of k s])
          with k l0 l1 x show ?thesis by simp
        next
          case False
          with a \<open>skip_ws s = c # r0\<close> obj Cons
          obtain kvs where p: "parse_members m [] r0 = Some (kvs, r)" and x: "v0 = JObject kvs"
            by (auto simp: parse_value.simps(2) [of m s] split: option.splits)
          from ms [OF p] have l2: "length r < length r0"
            and p2: "parse_members (length r0 - length r) [] r0 = Some (kvs, r)" by simp_all
          from l0 l2 obtain k where k: "length s - length r = Suc k" "length r0 - length r \<le> k"
            by (cases "length s - length r") auto
          from p2 k(2) have "parse_members k [] r0 = Some (kvs, r)" by (rule parse_members_fuel_mono)
          with False \<open>skip_ws s = c # r0\<close> obj Cons x
          have "parse_value (Suc k) s = Some (v0, r)"
            by (simp add: parse_value.simps(2) [of k s])
          with k l0 l2 show ?thesis by simp
        qed
      qed
    next
      case sc
      with a Cons have p: "parse_scalar (c # r0) = Some (v0, r)"
        by (simp add: parse_value.simps(2) [of m s])
      then have "length r < length (c # r0)" by (rule parse_scalar_shorter)
      with l0 have l: "length r < length s" by simp
      then obtain k where k: "length s - length r = Suc k"
        by (cases "length s - length r") auto
      from sc Cons p have "parse_value (Suc k) s = Some (v0, r)"
        by (simp add: parse_value.simps(2) [of k s])
      with k l show ?thesis by simp
    qed
  qed
  have E: "length r < length s \<and> parse_elements (length s - length r) s = Some (vs, r)"
    if a: "parse_elements (Suc m) s = Some (vs, r)" for s vs r
  proof -
    from a obtain v0 r1 where p: "parse_value m s = Some (v0, r1)"
      by (auto simp: parse_elements.simps(2) [of m s] split: option.splits)
    from v [OF p] have l1: "length r1 < length s"
      and p1: "parse_value (length s - length r1) s = Some (v0, r1)" by simp_all
    show ?thesis
    proof (cases "skip_ws r1")
      case Nil
      with a p show ?thesis by (simp add: parse_elements.simps(2) [of m s])
    next
      case (Cons c r2)
      have l2: "length r2 < length r1" using Cons by (rule skip_ws_Cons_length)
      consider (more) "c = CHR '',''" | (last) "c \<noteq> CHR '',''" "c = CHR '']''"
        | (bad) "c \<noteq> CHR '',''" "c \<noteq> CHR '']''"
        by blast
      then show ?thesis
      proof cases
        case more
        with a p Cons obtain ws where q: "parse_elements m r2 = Some (ws, r)"
          and x: "vs = v0 # ws"
          by (auto simp: parse_elements.simps(2) [of m s] dest: cons_result_Some)
        from e [OF q] have l3: "length r < length r2"
          and q1: "parse_elements (length r2 - length r) r2 = Some (ws, r)" by simp_all
        from l1 l2 l3 obtain k where k: "length s - length r = Suc k"
          "length s - length r1 \<le> k" "length r2 - length r \<le> k"
          by (cases "length s - length r") auto
        from p1 k(2) have "parse_value k s = Some (v0, r1)" by (rule parse_value_fuel_mono)
        moreover from q1 k(3) have "parse_elements k r2 = Some (ws, r)"
          by (rule parse_elements_fuel_mono)
        ultimately have "parse_elements (Suc k) s = Some (vs, r)"
          using Cons more x by (simp add: parse_elements.simps(2) [of k s] cons_result_def)
        with k l1 l2 l3 show ?thesis by simp
      next
        case last
        with a p Cons have x: "vs = [v0]" "r = r2"
          by (simp_all add: parse_elements.simps(2) [of m s])
        from l1 l2 x obtain k where k: "length s - length r = Suc k" "length s - length r1 \<le> k"
          by (cases "length s - length r") auto
        from p1 k(2) have "parse_value k s = Some (v0, r1)" by (rule parse_value_fuel_mono)
        then have "parse_elements (Suc k) s = Some (vs, r)"
          using Cons last x by (simp add: parse_elements.simps(2) [of k s])
        with k l1 l2 x show ?thesis by simp
      next
        case bad
        with a p Cons show ?thesis by (simp add: parse_elements.simps(2) [of m s])
      qed
    qed
  qed
  have M: "length r < length s \<and> parse_members (length s - length r) acc s = Some (kvs, r)"
    if a: "parse_members (Suc m) acc s = Some (kvs, r)" for acc s kvs r
  proof -
    from a obtain k0 r2 where pk: "parse_key s = Some (k0, r2)"
      by (auto simp: parse_members.simps(2) [of m acc s] split: option.splits)
    then have l0: "length r2 < length s" by (rule parse_key_shorter)
    from a pk obtain v0 r3 where p: "parse_value m r2 = Some (v0, r3)"
      by (auto simp: parse_members.simps(2) [of m acc s] split: option.splits)
    from v [OF p] have l1: "length r3 < length r2"
      and p1: "parse_value (length r2 - length r3) r2 = Some (v0, r3)" by simp_all
    show ?thesis
    proof (cases "skip_ws r3")
      case Nil
      with a pk p show ?thesis by (simp add: parse_members.simps(2) [of m acc s])
    next
      case (Cons d r4)
      have l2: "length r4 < length r3" using Cons by (rule skip_ws_Cons_length)
      consider (more) "d = CHR '',''" | (last) "d \<noteq> CHR '',''" "d = CHR ''}''"
        | (bad) "d \<noteq> CHR '',''" "d \<noteq> CHR ''}''"
        by blast
      then show ?thesis
      proof cases
        case more
        with a pk p Cons have q: "parse_members m (obj_put acc k0 v0) r4 = Some (kvs, r)"
          by (simp add: parse_members.simps(2) [of m acc s])
        from ms [OF q] have l3: "length r < length r4"
          and q1: "parse_members (length r4 - length r) (obj_put acc k0 v0) r4 = Some (kvs, r)"
          by simp_all
        from l0 l1 l2 l3 obtain k where k: "length s - length r = Suc k"
          "length r2 - length r3 \<le> k" "length r4 - length r \<le> k"
          by (cases "length s - length r") auto
        from p1 k(2) have "parse_value k r2 = Some (v0, r3)" by (rule parse_value_fuel_mono)
        moreover from q1 k(3) have "parse_members k (obj_put acc k0 v0) r4 = Some (kvs, r)"
          by (rule parse_members_fuel_mono)
        ultimately have "parse_members (Suc k) acc s = Some (kvs, r)"
          using pk Cons more by (simp add: parse_members.simps(2) [of k acc s])
        with k l0 l1 l2 l3 show ?thesis by simp
      next
        case last
        with a pk p Cons have x: "kvs = obj_put acc k0 v0" "r = r4"
          by (simp_all add: parse_members.simps(2) [of m acc s])
        from l0 l1 l2 x obtain k where k: "length s - length r = Suc k"
          "length r2 - length r3 \<le> k"
          by (cases "length s - length r") auto
        from p1 k(2) have "parse_value k r2 = Some (v0, r3)" by (rule parse_value_fuel_mono)
        then have "parse_members (Suc k) acc s = Some (kvs, r)"
          using pk Cons last x by (simp add: parse_members.simps(2) [of k acc s])
        with k l0 l1 l2 x show ?thesis by simp
      next
        case bad
        with a pk p Cons show ?thesis by (simp add: parse_members.simps(2) [of m acc s])
      qed
    qed
  qed
  from V E M show ?case by blast
qed

lemma parse_value_fuel_enough:
  assumes "parse_value n s = Some (v, r)"
  shows "parse_value (Suc (length s)) s = Some (v, r)"
proof -
  from assms parse_fuel_bound [of n]
  have "parse_value (length s - length r) s = Some (v, r)" by blast
  then show ?thesis by (rule parse_value_fuel_mono) simp
qed

lemma JSON_parse_fuel_free:
  "JSON_parse s = Inr v \<longleftrightarrow> (\<exists>n r. parse_value n s = Some (v, r) \<and> skip_ws r = [])"
proof
  assume "JSON_parse s = Inr v"
  then obtain r where "parse_value (Suc (length s)) s = Some (v, r)" and "skip_ws r = []"
    by (auto simp: JSON_parse_def split: option.splits if_splits)
  then show "\<exists>n r. parse_value n s = Some (v, r) \<and> skip_ws r = []" by blast
next
  assume "\<exists>n r. parse_value n s = Some (v, r) \<and> skip_ws r = []"
  then obtain n r where p: "parse_value n s = Some (v, r)" and r: "skip_ws r = []" by blast
  from p have "parse_value (Suc (length s)) s = Some (v, r)" by (rule parse_value_fuel_enough)
  with r show "JSON_parse s = Inr v" by (simp add: JSON_parse_def)
qed

end
